theory Spec2Isabelle
  imports Complex_Main "HOL-Library.Sublist" "HOL-Library.AList" "HOL-Library.Multiset"
begin

section \<open>JavaScript values\<close>

text \<open>
  The dashboard is JavaScript. Its numbers are modelled as reals extended with the
  three non-finite values of the language. The operations of this section are exact;
  the next section rounds to binary64, and the rounding operations are used where a
  claim depends on the digits of a result: in the ratio of new highs of the exposure
  score, and for the numbers that \<open>parseInt\<close> reads and a template literal prints.
  The sign of zero is dropped (nothing in the modelled code divides by a zero or prints
  one).  Strings are byte lists holding the UTF-8 encoding of the JavaScript string:
  every character the code tests for (quote, comma, line feed, digits, slash, dash) is
  ASCII, and an ASCII byte never occurs inside the encoding of another character.
\<close>

datatype num = NaN | NegInf | PosInf | Fin real

fun num_lt :: "num \<Rightarrow> num \<Rightarrow> bool" where
  "num_lt (Fin a) (Fin b) = (a < b)"
| "num_lt (Fin a) PosInf = True"
| "num_lt NegInf (Fin b) = True"
| "num_lt NegInf PosInf = True"
| "num_lt _ _ = False"

fun num_le :: "num \<Rightarrow> num \<Rightarrow> bool" where
  "num_le (Fin a) (Fin b) = (a \<le> b)"
| "num_le (Fin a) PosInf = True"
| "num_le NegInf (Fin b) = True"
| "num_le NegInf PosInf = True"
| "num_le NegInf NegInf = True"
| "num_le PosInf PosInf = True"
| "num_le _ _ = False"

definition num_gt :: "num \<Rightarrow> num \<Rightarrow> bool" where
  "num_gt a b = num_lt b a"

definition num_ge :: "num \<Rightarrow> num \<Rightarrow> bool" where
  "num_ge a b = num_le b a"

fun num_neg :: "num \<Rightarrow> num" where
  "num_neg NaN = NaN"
| "num_neg NegInf = PosInf"
| "num_neg PosInf = NegInf"
| "num_neg (Fin a) = Fin (- a)"

fun num_add :: "num \<Rightarrow> num \<Rightarrow> num" where
  "num_add (Fin a) (Fin b) = Fin (a + b)"
| "num_add NaN _ = NaN"
| "num_add _ NaN = NaN"
| "num_add PosInf NegInf = NaN"
| "num_add NegInf PosInf = NaN"
| "num_add PosInf _ = PosInf"
| "num_add _ PosInf = PosInf"
| "num_add NegInf _ = NegInf"
| "num_add _ NegInf = NegInf"

definition num_sub :: "num \<Rightarrow> num \<Rightarrow> num" where
  "num_sub a b = num_add a (num_neg b)"

text \<open>The sign of a non-NaN number: \<open>-1\<close>, \<open>0\<close> or \<open>1\<close>.\<close>

fun num_sgn :: "num \<Rightarrow> int" where
  "num_sgn NaN = 0"
| "num_sgn NegInf = - 1"
| "num_sgn PosInf = 1"
| "num_sgn (Fin a) = (if a < 0 then - 1 else if a = 0 then 0 else 1)"

definition infOfSign :: "int \<Rightarrow> num" where
  "infOfSign s = (if s = 0 then NaN else if s < 0 then NegInf else PosInf)"

fun num_mul :: "num \<Rightarrow> num \<Rightarrow> num" where
  "num_mul (Fin a) (Fin b) = Fin (a * b)"
| "num_mul NaN _ = NaN"
| "num_mul _ NaN = NaN"
| "num_mul a b = infOfSign (num_sgn a * num_sgn b)"

fun num_div :: "num \<Rightarrow> num \<Rightarrow> num" where
  "num_div (Fin a) (Fin b) = (if b = 0 then infOfSign (num_sgn (Fin a)) else Fin (a / b))"
| "num_div NaN _ = NaN"
| "num_div _ NaN = NaN"
| "num_div (Fin a) _ = Fin 0"
| "num_div a (Fin b) = infOfSign (num_sgn a * (if b < 0 then - 1 else 1))"
| "num_div _ _ = NaN"

text \<open>\<open>Math.round\<close> rounds to the nearest integer, a half towards plus infinity.\<close>

definition mathRound :: "real \<Rightarrow> real" where
  "mathRound x = of_int \<lfloor>x + 1 / 2\<rfloor>"

fun num_round :: "num \<Rightarrow> num" where
  "num_round (Fin a) = Fin (mathRound a)"
| "num_round a = a"

fun num_min :: "num \<Rightarrow> num \<Rightarrow> num" where
  "num_min NaN _ = NaN"
| "num_min _ NaN = NaN"
| "num_min a b = (if num_le a b then a else b)"

definition isNaN :: "num \<Rightarrow> bool" where
  "isNaN a = (a = NaN)"

definition num_truthy :: "num \<Rightarrow> bool" where
  "num_truthy a = (a \<noteq> NaN \<and> a \<noteq> Fin 0)"

text \<open>\<open>a || d\<close> on numbers.\<close>

definition num_or :: "num \<Rightarrow> num \<Rightarrow> num" where
  "num_or a d = (if num_truthy a then a else d)"

text \<open>
  A value of a table cell or an object property. \<open>JObject\<close> stands for any object
  or function; the only ones the modelled code can meet are the members every plain
  object inherits from \<open>Object.prototype\<close>.
\<close>

datatype jsval = JUndefined | JNull | JNum num | JStr string | JObject

fun truthy :: "jsval \<Rightarrow> bool" where
  "truthy JUndefined = False"
| "truthy JNull = False"
| "truthy (JNum a) = num_truthy a"
| "truthy (JStr s) = (s \<noteq> [])"
| "truthy JObject = True"

text \<open>\<open>v == null\<close> holds of \<open>null\<close> and \<open>undefined\<close> only.\<close>

fun looseNull :: "jsval \<Rightarrow> bool" where
  "looseNull JUndefined = True"
| "looseNull JNull = True"
| "looseNull _ = False"

text \<open>
  A plain object is the list of its own properties in insertion order. Reading a
  property that the object does not own finds what \<open>Object.prototype\<close> provides under
  that name, and \<open>undefined\<close> otherwise.
\<close>

type_synonym row = "(string \<times> jsval) list"

definition objectProto :: "string list" where
  "objectProto = [''constructor'', ''hasOwnProperty'', ''isPrototypeOf'',
     ''propertyIsEnumerable'', ''toLocaleString'', ''toString'', ''valueOf'',
     ''__proto__'', ''__defineGetter__'', ''__defineSetter__'',
     ''__lookupGetter__'', ''__lookupSetter__'']"

definition getProp :: "row \<Rightarrow> string \<Rightarrow> jsval" where
  "getProp r k =
     (case map_of r k of
        Some v \<Rightarrow> v
      | None \<Rightarrow> if k \<in> set objectProto then JObject else JUndefined)"

section \<open>Binary64 rounding\<close>

text \<open>
  A JavaScript number is an IEEE 754 binary64 value, and an arithmetic operation returns
  its exact result rounded to the nearest such value, a tie going to the even
  significand. A finite double is \<open>m * 2 powi e\<close> with \<open>\<bar>m\<bar>\<close> below \<open>2\<^sup>5\<^sup>3\<close> and \<open>e\<close> from
  -1074 to 971.

  \<open>binExp x\<close> is the binary exponent of a positive \<open>x\<close>, the \<open>k\<close> with
  \<open>2 powi k \<le> x < 2 powi (k + 1)\<close>, found by halving or doubling \<open>x\<close>. \<open>ulpExp x\<close> is
  the exponent of the last bit of a double next to \<open>x\<close>: 52 below the binary exponent,
  and -1074 in the subnormal range. \<open>fl x\<close> is \<open>x\<close> rounded to a multiple of
  \<open>2 powi ulpExp x\<close>. \<open>dbl x\<close> is what an operation with the exact result \<open>x\<close>
  returns: an infinity when the rounded value has reached \<open>2\<^sup>1\<^sup>0\<^sup>2\<^sup>4\<close>.
\<close>

function expUp :: "real \<Rightarrow> int" where
  "expUp x = (if 2 \<le> x then expUp (x / 2) + 1 else 0)"
  by auto
termination
proof (relation "measure (\<lambda>x. nat \<lfloor>x\<rfloor>)")
  show "wf (measure (\<lambda>x::real. nat \<lfloor>x\<rfloor>))" by simp
next
  fix x :: real
  assume "2 \<le> x"
  then have "\<lfloor>x / 2\<rfloor> < \<lfloor>x\<rfloor>" "0 < \<lfloor>x\<rfloor>" by linarith+
  then show "(x / 2, x) \<in> measure (\<lambda>x. nat \<lfloor>x\<rfloor>)" by simp
qed

function expDown :: "real \<Rightarrow> int" where
  "expDown x = (if 0 < x \<and> x < 1 then expDown (2 * x) - 1 else 0)"
  by auto
termination
proof (relation "measure (\<lambda>x. nat \<lfloor>1 / x\<rfloor>)")
  show "wf (measure (\<lambda>x::real. nat \<lfloor>1 / x\<rfloor>))" by simp
next
  fix x :: real
  assume a: "0 < x \<and> x < 1"
  define y where "y = 1 / x"
  have y: "1 < y" using a by (simp add: y_def)
  have eq: "1 / (2 * x) = y / 2" by (simp add: y_def)
  have f: "0 < \<lfloor>y\<rfloor>" using y by linarith
  have lt: "\<lfloor>y / 2\<rfloor> < \<lfloor>y\<rfloor>"
  proof -
    have "y < of_int \<lfloor>y\<rfloor> + 1" by linarith
    moreover have "1 \<le> (of_int \<lfloor>y\<rfloor> :: real)" using f by linarith
    ultimately have "y / 2 < of_int \<lfloor>y\<rfloor>" by linarith
    then show ?thesis by (simp add: floor_less_iff)
  qed
  show "(2 * x, x) \<in> measure (\<lambda>x. nat \<lfloor>1 / x\<rfloor>)"
    unfolding in_measure eq y_def [symmetric] using lt f by simp
qed

declare expUp.simps [simp del] expDown.simps [simp del]

definition binExp :: "real \<Rightarrow> int" where
  "binExp x = (if 1 \<le> x then expUp x else expDown x)"

definition roundEven :: "real \<Rightarrow> int" where
  "roundEven y =
     (let f = \<lfloor>y\<rfloor>
      in if y - of_int f < 1 / 2 then f
         else if 1 / 2 < y - of_int f then f + 1
         else if even f then f else f + 1)"

definition ulpExp :: "real \<Rightarrow> int" where
  "ulpExp x = max (binExp \<bar>x\<bar> - 52) (- 1074)"

definition fl :: "real \<Rightarrow> real" where
  "fl x = (if x = 0 then 0 else of_int (roundEven (x / 2 powi ulpExp x)) * 2 powi ulpExp x)"

definition dbl :: "real \<Rightarrow> num" where
  "dbl x =
     (let r = fl x
      in if r = 0 then Fin 0
         else if 1024 \<le> binExp \<bar>r\<bar> then (if 0 < r then PosInf else NegInf)
         else Fin r)"

text \<open>
  Addition, multiplication and division of doubles; the non-finite cases are those of
  the exact operations.
\<close>

fun dadd :: "num \<Rightarrow> num \<Rightarrow> num" where
  "dadd (Fin a) (Fin b) = dbl (a + b)"
| "dadd a b = num_add a b"

fun dmul :: "num \<Rightarrow> num \<Rightarrow> num" where
  "dmul (Fin a) (Fin b) = dbl (a * b)"
| "dmul a b = num_mul a b"

fun ddiv :: "num \<Rightarrow> num \<Rightarrow> num" where
  "ddiv (Fin a) (Fin b) = (if b = 0 then infOfSign (num_sgn (Fin a)) else dbl (a / b))"
| "ddiv a b = num_div a b"


section \<open>Strings: white space and numeric literals\<close>

text \<open>
  The white space and line terminators that \<open>trim\<close>, \<open>parseFloat\<close> and \<open>Number\<close>
  skip, each as its UTF-8 byte sequence: TAB, LF, VT, FF, CR, SP, U+00A0, U+1680,
  U+2000 to U+200A, U+2028, U+2029, U+202F, U+205F, U+3000 and U+FEFF.
\<close>

definition wsSeqs :: "string list" where
  "wsSeqs =
     [[CHR 0x09], [CHR 0x0A], [CHR 0x0B], [CHR 0x0C], [CHR 0x0D], [CHR 0x20],
      [CHR 0xC2, CHR 0xA0], [CHR 0xE1, CHR 0x9A, CHR 0x80],
      [CHR 0xE2, CHR 0x80, CHR 0x80], [CHR 0xE2, CHR 0x80, CHR 0x81],
      [CHR 0xE2, CHR 0x80, CHR 0x82], [CHR 0xE2, CHR 0x80, CHR 0x83],
      [CHR 0xE2, CHR 0x80, CHR 0x84], [CHR 0xE2, CHR 0x80, CHR 0x85],
      [CHR 0xE2, CHR 0x80, CHR 0x86], [CHR 0xE2, CHR 0x80, CHR 0x87],
      [CHR 0xE2, CHR 0x80, CHR 0x88], [CHR 0xE2, CHR 0x80, CHR 0x89],
      [CHR 0xE2, CHR 0x80, CHR 0x8A], [CHR 0xE2, CHR 0x80, CHR 0xA8],
      [CHR 0xE2, CHR 0x80, CHR 0xA9], [CHR 0xE2, CHR 0x80, CHR 0xAF],
      [CHR 0xE2, CHR 0x81, CHR 0x9F], [CHR 0xE3, CHR 0x80, CHR 0x80],
      [CHR 0xEF, CHR 0xBB, CHR 0xBF]]"

text \<open>The length of the white-space sequence that \<open>s\<close> starts with, 0 when none.\<close>

definition wsLen :: "string list \<Rightarrow> string \<Rightarrow> nat" where
  "wsLen seqs s = (case find (\<lambda>w. prefix w s) seqs of Some w \<Rightarrow> length w | None \<Rightarrow> 0)"

lemma wsLen_le: "wsLen seqs s \<le> length s"
  by (auto simp: wsLen_def find_Some_iff prefix_def split: option.splits)

function dropWs :: "string list \<Rightarrow> string \<Rightarrow> string" where
  "dropWs seqs s = (if wsLen seqs s = 0 then s else dropWs seqs (drop (wsLen seqs s) s))"
  by pat_completeness auto
termination
proof (relation "measure (\<lambda>(seqs, s). length s)")
  fix seqs :: "string list" and s :: string
  assume "wsLen seqs s \<noteq> 0"
  moreover have "wsLen seqs s \<le> length s" by (rule wsLen_le)
  ultimately show "((seqs, drop (wsLen seqs s) s), (seqs, s)) \<in> measure (\<lambda>(seqs, s). length s)"
    by simp
qed simp

declare dropWs.simps [simp del]

definition trimStart :: "string \<Rightarrow> string" where
  "trimStart s = dropWs wsSeqs s"

definition trimEnd :: "string \<Rightarrow> string" where
  "trimEnd s = rev (dropWs (map rev wsSeqs) (rev s))"

definition trim :: "string \<Rightarrow> string" where
  "trim s = trimEnd (trimStart s)"

definition isDigit :: "char \<Rightarrow> bool" where
  "isDigit c = (c \<in> set ''0123456789'')"

definition digitVal :: "char \<Rightarrow> int" where
  "digitVal c = of_char c - 48"

definition digitsVal :: "string \<Rightarrow> int" where
  "digitsVal ds = foldl (\<lambda>a c. 10 * a + digitVal c) 0 ds"

definition pow10 :: "int \<Rightarrow> real" where
  "pow10 e = (if 0 \<le> e then 10 ^ nat e else 1 / 10 ^ nat (- e))"

text \<open>
  The exponent part of a decimal literal, \<open>e\<close> or \<open>E\<close>, an optional sign and at least
  one digit; when it is not there nothing is consumed.
\<close>

definition scanExponent :: "string \<Rightarrow> int \<times> string" where
  "scanExponent r =
     (case r of
        [] \<Rightarrow> (0, r)
      | c # r1 \<Rightarrow>
          if c = CHR ''e'' \<or> c = CHR ''E'' then
            (let neg = (r1 \<noteq> [] \<and> hd r1 = CHR ''-'');
                 r2 = (if r1 \<noteq> [] \<and> (hd r1 = CHR ''-'' \<or> hd r1 = CHR ''+'') then tl r1 else r1);
                 ds = takeWhile isDigit r2
             in if ds = [] then (0, r)
                else ((if neg then - digitsVal ds else digitsVal ds),
                      dropWhile isDigit r2))
          else (0, r))"

text \<open>
  The longest prefix of \<open>s\<close> that is an unsigned decimal literal (digits, an optional
  fraction, an optional exponent; \<open>5.\<close> and \<open>.5\<close> are literals, \<open>.\<close> is not): its value
  and what follows it.
\<close>

definition scanDecimal :: "string \<Rightarrow> (real \<times> string) option" where
  "scanDecimal s =
     (let ip = takeWhile isDigit s;
          r1 = dropWhile isDigit s;
          hasDot = (r1 \<noteq> [] \<and> hd r1 = CHR ''.'');
          fp = (if hasDot then takeWhile isDigit (tl r1) else []);
          r2 = (if hasDot then dropWhile isDigit (tl r1) else r1)
      in if ip = [] \<and> fp = [] then None
         else (let m = real_of_int (digitsVal ip) + real_of_int (digitsVal fp) / 10 ^ length fp;
                   er = scanExponent r2
               in Some (m * pow10 (fst er), snd er)))"

text \<open>An optional sign: whether it is a minus, and the rest.\<close>

definition scanSign :: "string \<Rightarrow> bool \<times> string" where
  "scanSign t =
     (case t of
        [] \<Rightarrow> (False, t)
      | c # r \<Rightarrow> if c = CHR ''-'' then (True, r) else if c = CHR ''+'' then (False, r) else (False, t))"

text \<open>\<open>parseFloat\<close> of a string: leading white space is skipped, the longest decimal
  prefix is read, anything after it is ignored.\<close>

definition parseFloatStr :: "string \<Rightarrow> num" where
  "parseFloatStr s =
     (let sg = scanSign (trimStart s); neg = fst sg; u = snd sg
      in if prefix ''Infinity'' u then (if neg then NegInf else PosInf)
         else (case scanDecimal u of
                 None \<Rightarrow> NaN
               | Some (v, _) \<Rightarrow> Fin (if neg then - v else v)))"

text \<open>
  \<open>parseFloat\<close> of a value converts it to a string first. The string of a number reads
  back as that number, and the strings of \<open>null\<close>, \<open>undefined\<close>, objects and functions
  do not start with a decimal literal.
\<close>

fun parseFloat :: "jsval \<Rightarrow> num" where
  "parseFloat (JNum a) = a"
| "parseFloat (JStr s) = parseFloatStr s"
| "parseFloat _ = NaN"

section \<open>Configuration (config.js)\<close>

text \<open>The exposure weights, \<open>EXPOSURE.weights\<close>.\<close>

definition W_ema21 :: real where "W_ema21 = 35"
definition W_sma50 :: real where "W_sma50 = 10"
definition W_toraku :: real where "W_toraku = 17"
definition W_nhNl :: real where "W_nhNl = 13"
definition W_advPct :: real where "W_advPct = 10"
definition W_sectorBreadth :: real where "W_sectorBreadth = 15"

definition insideBand :: real where "insideBand = 1.0"

text \<open>\<open>EXPOSURE.toraku\<close>: the thresholds of the advance/decline ratio and its steps.\<close>

definition TR_overheatDanger :: real where "TR_overheatDanger = 140"
definition TR_overheatWarn :: real where "TR_overheatWarn = 120"
definition TR_optimalLow :: real where "TR_optimalLow = 100"
definition TR_warmLow :: real where "TR_warmLow = 80"
definition TR_coolLow :: real where "TR_coolLow = 70"
definition TR_steps_optimal :: real where "TR_steps_optimal = 17"
definition TR_steps_warm :: real where "TR_steps_warm = 11"
definition TR_steps_cool :: real where "TR_steps_cool = 6"
definition TR_steps_overheat :: real where "TR_steps_overheat = 3"
definition TR_steps_extreme :: real where "TR_steps_extreme = 0"
definition TR_steps_cold :: real where "TR_steps_cold = 2"

definition nhBonus_threshold100 :: real where "nhBonus_threshold100 = 3"
definition nhBonus_threshold50 :: real where "nhBonus_threshold50 = 2"

text \<open>\<open>EXPOSURE.advPctSteps\<close>: pairs of \<open>min\<close> and \<open>pts\<close>, in the order of the table.\<close>

definition advPctSteps :: "(real \<times> real) list" where
  "advPctSteps = [(55, 10), (45, 7), (35, 4)]"

definition sectorB80Threshold :: real where "sectorB80Threshold = 20"
definition sectorB80Bonus :: real where "sectorB80Bonus = 5"

text \<open>\<open>PHASE\<close>: the relative-strength minimum of each phase.\<close>

definition PHASE_strong_rs21Min :: real where "PHASE_strong_rs21Min = 50"
definition PHASE_improving_rs21Min :: real where "PHASE_improving_rs21Min = 30"
definition PHASE_stalling_rs21Min :: real where "PHASE_stalling_rs21Min = 30"

lemmas config_defs =
  W_ema21_def W_sma50_def W_toraku_def W_nhNl_def W_advPct_def W_sectorBreadth_def
  insideBand_def TR_overheatDanger_def TR_overheatWarn_def TR_optimalLow_def
  TR_warmLow_def TR_coolLow_def TR_steps_optimal_def TR_steps_warm_def
  TR_steps_cool_def TR_steps_overheat_def TR_steps_extreme_def TR_steps_cold_def
  nhBonus_threshold100_def nhBonus_threshold50_def advPctSteps_def
  sectorB80Threshold_def sectorB80Bonus_def PHASE_strong_rs21Min_def
  PHASE_improving_rs21Min_def PHASE_stalling_rs21Min_def

section \<open>The phase classifier and the exposure score (exposure.js)\<close>

text \<open>
  \<open>derivePhase\<close>: \<open>parseFloat(sector.RS_21) || 50\<close> and \<open>parseFloat(sector.ER_1W) || 0\<close>,
  then the first matching test of three, else phase 1.
\<close>

definition derivePhase :: "row \<Rightarrow> nat" where
  "derivePhase sector =
     (let rs21 = num_or (parseFloat (getProp sector ''RS_21'')) (Fin 50);
          er1w = num_or (parseFloat (getProp sector ''ER_1W'')) (Fin 0)
      in if num_ge rs21 (Fin PHASE_strong_rs21Min) \<and> num_gt er1w (Fin 0) then 4
         else if num_gt er1w (Fin 0) \<and> num_ge rs21 (Fin PHASE_improving_rs21Min) then 3
         else if num_le er1w (Fin 0) \<and> num_ge rs21 (Fin PHASE_stalling_rs21Min) then 2
         else 1)"

text \<open>
  The breadth summary that \<open>extractBreadth\<close> builds: four numbers (each the result of
  \<open>parseFloat(...) || 0\<close> or of \<open>Math.round\<close>).
\<close>

record breadth =
  toraku25 :: num
  newHigh :: num
  newLow :: num
  advPct :: num

record component =
  name :: string
  pts :: num
  max_pts :: real
  warningLabel :: "string option"

record exposure =
  score :: num
  label :: string
  components :: "component list"
  killSwitch :: bool
  raw :: num

record enrichedIdx =
  idx :: row
  emaPos :: string
  abv50 :: bool

definition enrich :: "row \<Rightarrow> enrichedIdx" where
  "enrich i =
     (let d21 = num_or (parseFloat (getProp i ''Dist_21EMA%'')) (Fin 0);
          d50 = num_or (parseFloat (getProp i ''Dist_50MA%'')) (Fin 0)
      in \<lparr> idx = i,
           emaPos = (if num_gt d21 (Fin insideBand) then ''above''
                     else if num_gt d21 (Fin (- insideBand)) then ''inside'' else ''below''),
           abv50 = num_gt d50 (Fin 0) \<rparr>)"

text \<open>Factor 1, the indices against their 21-period EMA.\<close>

definition perIdx1 :: real where
  "perIdx1 = mathRound (W_ema21 / 3 * 100) / 100"

definition halfIdx1 :: real where
  "halfIdx1 = mathRound (W_ema21 / 6 * 100) / 100"

definition add1 :: "real \<Rightarrow> enrichedIdx \<Rightarrow> real" where
  "add1 s e = (if emaPos e = ''above'' then s + perIdx1
               else if emaPos e = ''inside'' then s + halfIdx1 else s)"

definition factor1 :: "enrichedIdx list \<Rightarrow> real" where
  "factor1 enriched = mathRound (foldl add1 0 enriched * 10) / 10"

text \<open>Factor 2, the indices against their 50-period SMA.\<close>

definition perIdx2 :: real where
  "perIdx2 = mathRound (W_sma50 / 3 * 100) / 100"

definition add2 :: "real \<Rightarrow> enrichedIdx \<Rightarrow> real" where
  "add2 s e = (if abv50 e then s + perIdx2 else s)"

definition factor2 :: "enrichedIdx list \<Rightarrow> real" where
  "factor2 enriched = mathRound (foldl add2 0 enriched * 10) / 10"

text \<open>Factor 3, the 25-day advance/decline ratio, and its warning label.\<close>

definition factor3 :: "num \<Rightarrow> real" where
  "factor3 t =
     (if num_gt t (Fin TR_overheatDanger) then TR_steps_extreme
      else if num_gt t (Fin TR_overheatWarn) then TR_steps_overheat
      else if num_ge t (Fin TR_optimalLow) then TR_steps_optimal
      else if num_ge t (Fin TR_warmLow) then TR_steps_warm
      else if num_ge t (Fin TR_coolLow) then TR_steps_cool
      else TR_steps_cold)"

definition label_danger :: string where
  "label_danger = [CHR 0xE5, CHR 0x8D, CHR 0xB1, CHR 0xE9, CHR 0x99, CHR 0xBA,
     CHR 0xE9, CHR 0x81, CHR 0x8E, CHR 0xE7, CHR 0x86, CHR 0xB1]"

definition label_warn :: string where
  "label_warn = [CHR 0xE9, CHR 0x81, CHR 0x8E, CHR 0xE7, CHR 0x86, CHR 0xB1,
     CHR 0xE8, CHR 0xAD, CHR 0xA6, CHR 0xE6, CHR 0x88, CHR 0x92]"

definition warning3 :: "num \<Rightarrow> string option" where
  "warning3 t =
     (if num_gt t (Fin TR_overheatWarn)
      then (if num_gt t (Fin TR_overheatDanger) then Some label_danger else Some label_warn)
      else None)"

text \<open>
  Factor 4, new highs against new lows, with the bonus for many new highs. The sum, the
  quotient and the products are those of doubles.
\<close>

definition factor4 :: "num \<Rightarrow> num \<Rightarrow> num" where
  "factor4 nh nl =
     (let nhBase = W_nhNl - nhBonus_threshold100;
          s4 = (if num_gt (dadd nh nl) (Fin 0)
                then ddiv (num_round (dmul (dmul (ddiv nh (dadd nh nl)) (Fin nhBase)) (Fin 10)))
                          (Fin 10)
                else Fin 0);
          s4' = (if num_ge nh (Fin 100) then dadd s4 (Fin nhBonus_threshold100)
                 else if num_ge nh (Fin 50) then dadd s4 (Fin nhBonus_threshold50)
                 else s4)
      in num_min (Fin W_nhNl) (ddiv (num_round (dmul s4' (Fin 10))) (Fin 10)))"

text \<open>Factor 5, the share of advancing issues: the first step whose minimum is met.\<close>

fun factor5 :: "(real \<times> real) list \<Rightarrow> num \<Rightarrow> real" where
  "factor5 [] ap = 0"
| "factor5 ((mn, p) # steps) ap = (if num_ge ap (Fin mn) then p else factor5 steps ap)"

text \<open>Factor 6, the sectors in phase 4 and the average of their \<open>Band80_Pct\<close>.\<close>

definition factor6 :: "row list \<Rightarrow> real" where
  "factor6 sectors =
     (let validSectors = filter (\<lambda>s. truthy (getProp s ''Sector'')) sectors;
          phase4Count = length (filter (\<lambda>s. derivePhase s = 4) validSectors);
          b80Sum = foldl (\<lambda>a s. num_add a (num_or (parseFloat (getProp s ''Band80_Pct'')) (Fin 0)))
                     (Fin 0) validSectors;
          phase4Ratio = (if length validSectors > 0
                         then real phase4Count / real (length validSectors) else 0);
          b80Avg = (if length validSectors > 0
                    then num_div b80Sum (Fin (real (length validSectors))) else Fin 0);
          sbBase = W_sectorBreadth - sectorB80Bonus;
          s6 = mathRound (phase4Ratio * sbBase * 10) / 10;
          s6' = (if num_ge b80Avg (Fin sectorB80Threshold) then s6 + sectorB80Bonus else s6)
      in min W_sectorBreadth s6')"

definition name1 :: string where "name1 = ''Index'' @ [CHR 0xC3, CHR 0x97] @ ''21EMA''"
definition name2 :: string where "name2 = ''Index'' @ [CHR 0xC3, CHR 0x97] @ ''50SMA''"
definition name3 :: string where
  "name3 = [CHR 0xE9, CHR 0xA8, CHR 0xB0, CHR 0xE8, CHR 0x90, CHR 0xBD, CHR 0xE3, CHR 0x83,
     CHR 0xAC, CHR 0xE3, CHR 0x82, CHR 0xB7, CHR 0xE3, CHR 0x82, CHR 0xAA] @ ''(25)''"
definition name4 :: string where
  "name4 = ''NH/NL'' @ [CHR 0xE6, CHR 0xAF, CHR 0x94, CHR 0xE7, CHR 0x8E, CHR 0x87]"
definition name5 :: string where
  "name5 = [CHR 0xE5, CHR 0x80, CHR 0xA4, CHR 0xE4, CHR 0xB8, CHR 0x8A, CHR 0xE3, CHR 0x81,
     CHR 0x8C, CHR 0xE3, CHR 0x82, CHR 0x8A, CHR 0xE7, CHR 0x8E, CHR 0x87]"
definition name6 :: string where "name6 = ''Sector Breadth''"

definition labelOf :: "bool \<Rightarrow> num \<Rightarrow> string" where
  "labelOf ks sc =
     (if ks then ''RISK OFF''
      else if num_ge sc (Fin 80) then ''AGGRESSIVE''
      else if num_ge sc (Fin 60) then ''BULLISH''
      else if num_ge sc (Fin 40) then ''CAUTIOUS''
      else if num_ge sc (Fin 20) then ''DEFENSIVE''
      else ''RISK OFF'')"

definition calcExposure :: "row list \<Rightarrow> breadth \<Rightarrow> row list \<Rightarrow> exposure" where
  "calcExposure indices b sectors =
     (let enriched = map enrich indices;
          s1 = factor1 enriched;
          ks = (s1 = 0);
          s2 = factor2 enriched;
          t = num_or (toraku25 b) (Fin 0);
          s3 = factor3 t;
          nh = num_or (newHigh b) (Fin 0);
          nl = num_or (newLow b) (Fin 0);
          s4 = factor4 nh nl;
          ap = num_or (advPct b) (Fin 0);
          s5 = factor5 advPctSteps ap;
          s6 = factor6 sectors;
          comps =
            [\<lparr> name = name1, pts = Fin s1, max_pts = W_ema21, warningLabel = None \<rparr>,
             \<lparr> name = name2, pts = Fin s2, max_pts = W_sma50, warningLabel = None \<rparr>,
             \<lparr> name = name3, pts = Fin s3, max_pts = W_toraku, warningLabel = warning3 t \<rparr>,
             \<lparr> name = name4, pts = s4, max_pts = W_nhNl, warningLabel = None \<rparr>,
             \<lparr> name = name5, pts = Fin s5, max_pts = W_advPct, warningLabel = None \<rparr>,
             \<lparr> name = name6, pts = Fin s6, max_pts = W_sectorBreadth, warningLabel = None \<rparr>];
          rw = foldl (\<lambda>sum c. num_add sum (pts c)) (Fin 0) comps;
          sc = (if ks then Fin 0
                else num_div (num_round (num_mul (num_min (Fin 100) rw) (Fin 10))) (Fin 10))
      in \<lparr> score = sc, label = labelOf ks sc, components = comps, killSwitch = ks,
           raw = num_div (num_round (num_mul rw (Fin 10))) (Fin 10) \<rparr>)"

section \<open>Properties of the rounding\<close>

lemma expUp_bounds: "1 \<le> x \<Longrightarrow> 0 \<le> expUp x \<and> 2 powi expUp x \<le> x \<and> x < 2 powi (expUp x + 1)"
proof (induction x rule: expUp.induct)
  case (1 x)
  show ?case
  proof (cases "2 \<le> x")
    case True
    then have "1 \<le> x / 2" by simp
    from "1.IH" [OF True this] have ih: "0 \<le> expUp (x / 2)" "2 powi expUp (x / 2) \<le> x / 2"
      "x / 2 < 2 powi (expUp (x / 2) + 1)" by simp_all
    have e: "expUp x = expUp (x / 2) + 1" using True by (simp add: expUp.simps [of x])
    show ?thesis unfolding e using ih by (simp add: power_int_add)
  next
    case False
    then have "expUp x = 0" by (simp add: expUp.simps [of x])
    with False "1.prems" show ?thesis by simp
  qed
qed

lemma expDown_bounds:
  "0 < x \<Longrightarrow> x < 1 \<Longrightarrow> expDown x < 0 \<and> 2 powi expDown x \<le> x \<and> x < 2 powi (expDown x + 1)"
proof (induction x rule: expDown.induct)
  case (1 x)
  have e: "expDown x = expDown (2 * x) - 1" using "1.prems" by (simp add: expDown.simps [of x])
  show ?case
  proof (cases "2 * x < 1")
    case True
    from "1.IH" [OF _ _ True] "1.prems" have ih: "expDown (2 * x) < 0"
      "2 powi expDown (2 * x) \<le> 2 * x" "2 * x < 2 powi (expDown (2 * x) + 1)" by simp_all
    have "2 powi (expDown (2 * x) - 1) = 2 powi expDown (2 * x) / (2::real)"
      by (simp add: power_int_diff)
    moreover have "2 powi (expDown (2 * x) + 1) = 2 powi expDown (2 * x) * (2::real)"
      by (simp add: power_int_add)
    ultimately show ?thesis unfolding e using ih by simp
  next
    case False
    then have "expDown (2 * x) = 0" by (simp add: expDown.simps [of "2 * x"])
    then show ?thesis unfolding e using False "1.prems" by simp
  qed
qed

lemma binExp_bounds:
  assumes "0 < x"
  shows "2 powi binExp x \<le> x \<and> x < 2 powi (binExp x + 1)"
  using assms expUp_bounds [of x] expDown_bounds [of x] by (simp add: binExp_def)

lemma pow2_less_imp:
  assumes "(2::real) powi a < 2 powi b"
  shows "a < b"
proof (rule ccontr)
  assume "\<not> a < b"
  then have "b \<le> a" by simp
  then have "(2::real) powi b \<le> 2 powi a" by (intro power_int_increasing) simp_all
  with assms show False by simp
qed

lemma binExp_unique:
  assumes "2 powi k \<le> x" "x < 2 powi (k + 1)"
  shows "binExp x = k"
proof -
  have "0 < (2::real) powi k" by simp
  then have pos: "0 < x" using assms(1) by linarith
  from binExp_bounds [OF pos] have b: "2 powi binExp x \<le> x" "x < 2 powi (binExp x + 1)" by simp_all
  have "(2::real) powi k < 2 powi (binExp x + 1)" using assms(1) b(2) by linarith
  then have 1: "k < binExp x + 1" by (rule pow2_less_imp)
  have "(2::real) powi binExp x < 2 powi (k + 1)" using assms(2) b(1) by linarith
  then have 2: "binExp x < k + 1" by (rule pow2_less_imp)
  from 1 2 show ?thesis by linarith
qed

lemma binExp_mono:
  assumes "0 < x" "x \<le> y"
  shows "binExp x \<le> binExp y"
proof -
  have "0 < y" using assms by linarith
  from binExp_bounds [OF assms(1)] binExp_bounds [OF this]
  have "(2::real) powi binExp x < 2 powi (binExp y + 1)" using assms(2) by linarith
  then have "binExp x < binExp y + 1" by (rule pow2_less_imp)
  then show ?thesis by linarith
qed

lemma roundEven_int: "roundEven (of_int n) = n"
  by (simp add: roundEven_def)

lemma roundEven_floor: "\<lfloor>y\<rfloor> \<le> roundEven y \<and> roundEven y \<le> \<lfloor>y\<rfloor> + 1"
  by (simp add: roundEven_def Let_def)

lemma roundEven_ge:
  assumes "of_int n \<le> y"
  shows "n \<le> roundEven y"
proof -
  have "n \<le> \<lfloor>y\<rfloor>" using assms by (simp add: le_floor_iff)
  with roundEven_floor [of y] show ?thesis by linarith
qed

lemma roundEven_le:
  assumes "y \<le> of_int n"
  shows "roundEven y \<le> n"
proof (cases "y = of_int n")
  case True
  then show ?thesis by (simp add: roundEven_int)
next
  case False
  with assms have "y < of_int n" by simp
  then have "\<lfloor>y\<rfloor> < n" by (simp add: floor_less_iff)
  with roundEven_floor [of y] show ?thesis by linarith
qed

lemma roundEven_mono:
  assumes "x \<le> y"
  shows "roundEven x \<le> roundEven y"
proof (cases "\<lfloor>x\<rfloor> = \<lfloor>y\<rfloor>")
  case True
  then show ?thesis using assms by (simp add: roundEven_def Let_def)
next
  case False
  moreover have "\<lfloor>x\<rfloor> \<le> \<lfloor>y\<rfloor>" using assms by (rule floor_mono)
  ultimately have "\<lfloor>x\<rfloor> + 1 \<le> \<lfloor>y\<rfloor>" by linarith
  with roundEven_floor [of x] roundEven_floor [of y] show ?thesis by linarith
qed

lemma ulpExp_mono:
  assumes "0 < x" "x \<le> y"
  shows "ulpExp x \<le> ulpExp y"
  using binExp_mono [OF assms] assms by (simp add: ulpExp_def)

lemma fl_pos_def:
  "0 < x \<Longrightarrow> fl x = of_int (roundEven (x / 2 powi ulpExp x)) * 2 powi ulpExp x"
  by (simp add: fl_def)

lemma pow2_pos: "0 < (2::real) powi e"
  by simp

lemma fl_mono_pos:
  assumes "0 < x" "x \<le> y"
  shows "fl x \<le> fl y"
proof -
  have ypos: "0 < y" using assms by linarith
  define ex where "ex = ulpExp x"
  define ey where "ey = ulpExp y"
  define mx where "mx = roundEven (x / 2 powi ex)"
  define my where "my = roundEven (y / 2 powi ey)"
  have fx: "fl x = of_int mx * 2 powi ex" using assms(1) by (simp add: fl_pos_def mx_def ex_def)
  have fy: "fl y = of_int my * 2 powi ey" using ypos by (simp add: fl_pos_def my_def ey_def)
  have le: "ex \<le> ey" unfolding ex_def ey_def using assms by (rule ulpExp_mono)
  show ?thesis
  proof (cases "ex = ey")
    case True
    have "x / 2 powi ey \<le> y / 2 powi ey" using assms(2) by (simp add: divide_right_mono)
    then have "mx \<le> my" unfolding mx_def my_def True by (rule roundEven_mono)
    then have "(of_int mx :: real) \<le> of_int my" by simp
    then show ?thesis unfolding fx fy True by (simp add: mult_right_mono)
  next
    case False
    with le have lt: "ex < ey" by simp
    have "- 1074 \<le> ex" by (simp add: ex_def ulpExp_def)
    with lt have "ey = binExp y - 52" using ypos by (simp add: ey_def ulpExp_def)
    then have bexp: "binExp y = ey + 52" by simp
    have "2 powi (ey + 52) \<le> y" using binExp_bounds [OF ypos] by (simp add: bexp)
    then have "2 powi ey * (2 ^ 52 :: real) \<le> y" by (simp add: power_int_add)
    then have "(2 ^ 52 :: real) \<le> y / 2 powi ey" by (simp add: pos_le_divide_eq mult.commute)
    then have "of_int (2 ^ 52) \<le> y / 2 powi ey" by simp
    then have "2 ^ 52 \<le> my" unfolding my_def by (rule roundEven_ge)
    then have "(2 ^ 52 :: real) \<le> of_int my" by (metis of_int_le_iff of_int_numeral of_int_power)
    then have "2 ^ 52 * 2 powi ey \<le> of_int my * (2::real) powi ey" by (simp add: mult_right_mono)
    then have low: "2 powi (ey + 52) \<le> fl y" unfolding fy by (simp add: power_int_add mult.commute)
    have "binExp x - 52 \<le> ex" using assms(1) by (simp add: ex_def ulpExp_def)
    then have "binExp x + 1 \<le> ex + 53" by simp
    then have "(2::real) powi (binExp x + 1) \<le> 2 powi (ex + 53)"
      by (intro power_int_increasing) simp_all
    with binExp_bounds [OF assms(1)] have "x \<le> 2 powi (ex + 53)" by linarith
    then have "x \<le> 2 powi ex * (2 ^ 53 :: real)" by (simp add: power_int_add)
    then have "x / 2 powi ex \<le> (2 ^ 53 :: real)" by (simp add: pos_divide_le_eq mult.commute)
    then have "x / 2 powi ex \<le> of_int (2 ^ 53)" by simp
    then have "mx \<le> 2 ^ 53" unfolding mx_def by (rule roundEven_le)
    then have "(of_int mx :: real) \<le> 2 ^ 53" by (metis of_int_le_iff of_int_numeral of_int_power)
    then have "of_int mx * 2 powi ex \<le> 2 ^ 53 * (2::real) powi ex" by (simp add: mult_right_mono)
    then have up: "fl x \<le> 2 powi (ex + 53)" unfolding fx by (simp add: power_int_add mult.commute)
    have "ex + 53 \<le> ey + 52" using lt by simp
    then have "(2::real) powi (ex + 53) \<le> 2 powi (ey + 52)"
      by (intro power_int_increasing) simp_all
    with low up show ?thesis by linarith
  qed
qed

lemma fl_0: "fl 0 = 0"
  by (simp add: fl_def)

lemma fl_nonneg:
  assumes "0 \<le> x"
  shows "0 \<le> fl x"
proof (cases "x = 0")
  case True
  then show ?thesis by (simp add: fl_0)
next
  case False
  with assms have pos: "0 < x" by simp
  then have "0 \<le> x / 2 powi ulpExp x" by simp
  then have "of_int 0 \<le> x / 2 powi ulpExp x" by simp
  then have "0 \<le> roundEven (x / 2 powi ulpExp x)" by (rule roundEven_ge)
  then show ?thesis using pos by (simp add: fl_pos_def)
qed

lemma fl_mono:
  assumes "0 \<le> x" "x \<le> y"
  shows "fl x \<le> fl y"
proof (cases "x = 0")
  case True
  with assms fl_nonneg [of y] show ?thesis by (simp add: fl_0)
next
  case False
  with assms have "0 < x" by simp
  then show ?thesis using assms(2) by (rule fl_mono_pos)
qed

lemma fl_exact:
  assumes "x / 2 powi ulpExp x = of_int m"
  shows "fl x = x"
proof (cases "x = 0")
  case True
  then show ?thesis by (simp add: fl_0)
next
  case False
  have "of_int m * 2 powi ulpExp x = x" using assms [symmetric] by simp
  then show ?thesis using False by (simp add: fl_def assms roundEven_int)
qed

lemma fl_nat:
  assumes "n \<le> 2 ^ 53"
  shows "fl (real n) = real n"
proof (cases "n = 0")
  case True
  then show ?thesis by (simp add: fl_0)
next
  case False
  then have pos: "0 < real n" by simp
  define k where "k = binExp (real n)"
  from binExp_bounds [OF pos] have b: "2 powi k \<le> real n" "real n < 2 powi (k + 1)"
    by (simp_all add: k_def)
  have "1 \<le> real n" using False by simp
  then have k0: "0 \<le> k" using expUp_bounds [of "real n"] by (simp add: k_def binExp_def)
  have "real n \<le> real (2 ^ 53)" using assms by (simp only: of_nat_le_iff)
  then have rn: "real n \<le> 2 ^ 53" by simp
  have "(2::real) powi k \<le> 2 ^ 53" using b(1) rn by linarith
  then have "(2::real) powi k < 2 powi 54" by simp
  then have k53: "k < 54" by (rule pow2_less_imp)
  have e: "ulpExp (real n) = k - 52" using k0 by (simp add: ulpExp_def k_def)
  show ?thesis
  proof (cases "k \<le> 52")
    case True
    define j where "j = nat (52 - k)"
    have kj: "k - 52 = - int j" using True by (simp add: j_def)
    have "(2::real) powi (k - 52) = inverse (2 ^ j)"
      unfolding kj by (simp add: power_int_minus)
    then have "real n / 2 powi (k - 52) = real n * 2 ^ j" by (simp add: divide_inverse)
    also have "\<dots> = of_int (int n * 2 ^ j)" by simp
    finally show ?thesis by (intro fl_exact [of _ "int n * 2 ^ j"]) (simp add: e)
  next
    case False
    with k53 have k: "k = 53" by simp
    from b(1) have "2 ^ 53 \<le> real n" by (simp add: k)
    with rn have "real n = real (2 ^ 53)" by simp
    then have n: "n = 2 ^ 53" by (simp only: of_nat_eq_iff)
    have "real n / 2 powi (k - 52) = of_int (2 ^ 52)" by (simp add: k n)
    then show ?thesis by (intro fl_exact [of _ "2 ^ 52"]) (simp add: e)
  qed
qed

lemma binExp_pow2: "binExp (2 powi k) = k"
proof (rule binExp_unique)
  show "(2::real) powi k \<le> 2 powi k" by simp
  show "(2::real) powi k < 2 powi (k + 1)" by (intro power_int_strict_increasing) simp_all
qed

lemma binExp_less:
  assumes "0 < x" "x < 2 powi k"
  shows "binExp x < k"
proof -
  from binExp_bounds [OF assms(1)] assms(2) have "(2::real) powi binExp x < 2 powi k" by linarith
  then show ?thesis by (rule pow2_less_imp)
qed

lemma fl_le_nat:
  assumes "0 \<le> x" "x \<le> real n" "n \<le> 2 ^ 53"
  shows "fl x \<le> real n"
  using fl_mono [OF assms(1,2)] fl_nat [OF assms(3)] by simp

lemma fl_le_numeral:
  assumes "0 \<le> x" "x \<le> numeral k" "numeral k \<le> (2 ^ 53 :: nat)"
  shows "fl x \<le> numeral k"
  using fl_le_nat [of x "numeral k"] assms by simp

lemma dbl_small:
  assumes "0 \<le> x" "x \<le> 2 ^ 53"
  shows "dbl x = Fin (fl x)"
proof (cases "fl x = 0")
  case True
  then show ?thesis by (simp add: dbl_def)
next
  case False
  with fl_nonneg [OF assms(1)] have pos: "0 < fl x" by simp
  have "fl x \<le> real (2 ^ 53)" using assms by (intro fl_le_nat) simp_all
  then have "fl x < 2 powi 1024" by simp
  with pos have "binExp (fl x) < 1024" by (rule binExp_less)
  then show ?thesis using pos False by (simp add: dbl_def)
qed

lemma dbl_nonneg:
  assumes "0 \<le> x"
  shows "num_le (Fin 0) (dbl x)"
  using fl_nonneg [OF assms] by (simp add: dbl_def Let_def)

lemma fl_near:
  assumes "0 \<le> x" "x \<le> 2 ^ 53"
  shows "x \<le> fl x + 2"
proof (cases "x = 0")
  case True
  then show ?thesis by (simp add: fl_0)
next
  case False
  with assms have pos: "0 < x" by simp
  define e where "e = ulpExp x"
  have "x < 2 powi 54" using assms(2) by simp
  with pos have "binExp x < 54" by (rule binExp_less)
  then have e1: "e \<le> 1" using pos by (simp add: e_def ulpExp_def)
  have p: "(2::real) powi e \<le> 2 powi 1" using e1 by (intro power_int_increasing) simp_all
  have "x / 2 powi e < of_int \<lfloor>x / 2 powi e\<rfloor> + 1" by linarith
  also have "\<dots> \<le> of_int (roundEven (x / 2 powi e)) + 1"
    using roundEven_floor [of "x / 2 powi e"] by simp
  finally have "x < (of_int (roundEven (x / 2 powi e)) + 1) * 2 powi e"
    by (simp add: pos_divide_less_eq)
  then have "x < fl x + 2 powi e" using pos by (simp add: fl_pos_def e_def algebra_simps)
  with p show ?thesis by simp
qed


section \<open>Bounds and monotonicity of the factors\<close>

lemma mathRound_mono: "x \<le> y \<Longrightarrow> mathRound x \<le> mathRound y"
  by (simp add: mathRound_def floor_mono)

lemma mathRound_nonneg: "0 \<le> x \<Longrightarrow> 0 \<le> mathRound x"
  by (simp add: mathRound_def)

lemma mathRound_le: "x \<le> real_of_int n + 1 / 4 \<Longrightarrow> mathRound x \<le> real_of_int n"
  unfolding mathRound_def by (simp add: floor_le_iff)

lemma mathRound_0: "mathRound 0 = 0"
  by (simp add: mathRound_def)

lemma num_or_Fin: "num_or (Fin a) (Fin 0) = Fin a"
  by (simp add: num_or_def num_truthy_def)

lemma perIdx1_val: "perIdx1 = 1167 / 100"
  by (simp add: perIdx1_def mathRound_def W_ema21_def)

lemma halfIdx1_val: "halfIdx1 = 583 / 100"
  by (simp add: halfIdx1_def mathRound_def W_ema21_def)

lemma perIdx2_val: "perIdx2 = 333 / 100"
  by (simp add: perIdx2_def mathRound_def W_sma50_def)

lemma foldl_add1_bounds:
  "0 \<le> s \<Longrightarrow> 0 \<le> foldl add1 s es \<and> foldl add1 s es \<le> s + perIdx1 * real (length es)"
proof (induction es arbitrary: s)
  case Nil
  then show ?case by simp
next
  case (Cons e es)
  have a: "s \<le> add1 s e" "add1 s e \<le> s + perIdx1"
    by (simp_all add: add1_def perIdx1_val halfIdx1_val)
  with Cons.prems have "0 \<le> add1 s e" by linarith
  from Cons.IH [OF this] a show ?case
    by (simp add: algebra_simps)
qed

lemma foldl_add2_bounds:
  "0 \<le> s \<Longrightarrow> 0 \<le> foldl add2 s es \<and> foldl add2 s es \<le> s + perIdx2 * real (length es)"
proof (induction es arbitrary: s)
  case Nil
  then show ?case by simp
next
  case (Cons e es)
  have a: "s \<le> add2 s e" "add2 s e \<le> s + perIdx2"
    by (simp_all add: add2_def perIdx2_val)
  with Cons.prems have "0 \<le> add2 s e" by linarith
  from Cons.IH [OF this] a show ?case
    by (simp add: algebra_simps)
qed

lemma factor1_bounds:
  assumes "length es \<le> 3"
  shows "0 \<le> factor1 es \<and> factor1 es \<le> W_ema21"
proof -
  have b: "0 \<le> foldl add1 0 es" "foldl add1 0 es \<le> perIdx1 * real (length es)"
    using foldl_add1_bounds [of 0 es] by simp_all
  have "perIdx1 * real (length es) \<le> perIdx1 * 3"
    using assms by (simp add: perIdx1_val)
  with b have "foldl add1 0 es * 10 \<le> real_of_int 350 + 1 / 4"
    by (simp add: perIdx1_val)
  then have "mathRound (foldl add1 0 es * 10) \<le> real_of_int 350"
    by (rule mathRound_le)
  moreover have "0 \<le> mathRound (foldl add1 0 es * 10)"
    using b by (simp add: mathRound_nonneg)
  ultimately show ?thesis
    by (simp add: factor1_def W_ema21_def)
qed

lemma factor2_bounds:
  assumes "length es \<le> 3"
  shows "0 \<le> factor2 es \<and> factor2 es \<le> W_sma50"
proof -
  have b: "0 \<le> foldl add2 0 es" "foldl add2 0 es \<le> perIdx2 * real (length es)"
    using foldl_add2_bounds [of 0 es] by simp_all
  have "perIdx2 * real (length es) \<le> perIdx2 * 3"
    using assms by (simp add: perIdx2_val)
  with b have "foldl add2 0 es * 10 \<le> real_of_int 100 + 1 / 4"
    by (simp add: perIdx2_val)
  then have "mathRound (foldl add2 0 es * 10) \<le> real_of_int 100"
    by (rule mathRound_le)
  moreover have "0 \<le> mathRound (foldl add2 0 es * 10)"
    using b by (simp add: mathRound_nonneg)
  ultimately show ?thesis
    by (simp add: factor2_def W_sma50_def)
qed

lemma factor3_bounds: "0 \<le> factor3 t \<and> factor3 t \<le> W_toraku"
  by (simp add: factor3_def config_defs)

lemma factor5_bounds: "0 \<le> factor5 advPctSteps ap \<and> factor5 advPctSteps ap \<le> W_advPct"
  by (simp add: config_defs)

lemma factor6_bounds: "0 \<le> factor6 sectors \<and> factor6 sectors \<le> W_sectorBreadth"
proof -
  define vs where "vs = filter (\<lambda>s. truthy (getProp s ''Sector'')) sectors"
  define r where "r = (if length vs > 0
      then real (length (filter (\<lambda>s. derivePhase s = 4) vs)) / real (length vs) else 0)"
  have r: "0 \<le> r" "r \<le> 1"
    by (auto simp: r_def divide_le_eq)
  define s6 where "s6 = mathRound (r * (W_sectorBreadth - sectorB80Bonus) * 10) / 10"
  have "r * 10 * 10 \<le> real_of_int 100 + 1 / 4" using r by simp
  then have "mathRound (r * 10 * 10) \<le> real_of_int 100" by (rule mathRound_le)
  moreover have "0 \<le> mathRound (r * 10 * 10)" using r by (simp add: mathRound_nonneg)
  ultimately have s6: "0 \<le> s6" "s6 \<le> 10"
    by (simp_all add: s6_def config_defs)
  show ?thesis
    unfolding factor6_def Let_def vs_def [symmetric] r_def [symmetric] s6_def [symmetric]
    using s6 by (simp add: config_defs)
qed

definition nhBonus :: "real \<Rightarrow> real" where
  "nhBonus nh = (if 100 \<le> nh then nhBonus_threshold100 else if 50 \<le> nh then nhBonus_threshold50 else 0)"

lemma nhBonus_mono: "nh \<le> nh' \<Longrightarrow> nhBonus nh \<le> nhBonus nh'"
  by (simp add: nhBonus_def config_defs)

text \<open>
  Rounding to one decimal place, as the code writes it, \<open>Math.round(x * 10) / 10\<close>, on
  doubles: the product and the quotient are rounded to binary64.
\<close>

definition dround1 :: "real \<Rightarrow> real" where
  "dround1 x = fl (mathRound (fl (x * 10)) / 10)"

definition nhnl_points :: "real \<Rightarrow> real \<Rightarrow> real" where
  "nhnl_points nh nl =
     (let base = (if nh + nl = 0 then 0
                  else dround1 (fl (fl (nh / (nh + nl)) * (W_nhNl - nhBonus_threshold100))));
          total = (if nhBonus nh = 0 then base else fl (base + nhBonus nh))
      in min W_nhNl (dround1 total))"

lemma mathRound_le_nat:
  assumes "x \<le> real n"
  shows "mathRound x \<le> real n"
proof -
  have "x \<le> real_of_int (int n) + 1 / 4" using assms by simp
  then have "mathRound x \<le> real_of_int (int n)" by (rule mathRound_le)
  then show ?thesis by simp
qed

lemma dround1_bounds:
  assumes "0 \<le> x" "x \<le> real n" "10 * n \<le> 2 ^ 53"
  shows "0 \<le> fl (x * 10)" "fl (x * 10) \<le> real (10 * n)"
    "0 \<le> mathRound (fl (x * 10))" "mathRound (fl (x * 10)) \<le> real (10 * n)"
    "0 \<le> dround1 x" "dround1 x \<le> real n"
proof -
  have n: "n \<le> 2 ^ 53" using assms(3) by simp
  show a: "0 \<le> fl (x * 10)" using assms(1) by (intro fl_nonneg) simp
  show b: "fl (x * 10) \<le> real (10 * n)" using assms by (intro fl_le_nat) simp_all
  show c: "0 \<le> mathRound (fl (x * 10))" using a by (rule mathRound_nonneg)
  show d: "mathRound (fl (x * 10)) \<le> real (10 * n)" using b by (rule mathRound_le_nat)
  show "0 \<le> dround1 x" unfolding dround1_def using c by (intro fl_nonneg) simp
  show "dround1 x \<le> real n" unfolding dround1_def using c d n by (intro fl_le_nat) simp_all
qed

lemma dround1_mono:
  assumes "0 \<le> x" "x \<le> y"
  shows "dround1 x \<le> dround1 y"
proof -
  have "fl (x * 10) \<le> fl (y * 10)" using assms by (intro fl_mono) simp_all
  then have "mathRound (fl (x * 10)) \<le> mathRound (fl (y * 10))" by (rule mathRound_mono)
  moreover have "0 \<le> mathRound (fl (x * 10))"
    using assms(1) by (intro mathRound_nonneg fl_nonneg) simp
  ultimately show ?thesis unfolding dround1_def by (intro fl_mono) simp_all
qed

text \<open>The ratio part of factor 4 on counts.\<close>

definition nhnl_base :: "real \<Rightarrow> real \<Rightarrow> real" where
  "nhnl_base nh nl =
     (if nh + nl = 0 then 0
      else dround1 (fl (fl (nh / (nh + nl)) * (W_nhNl - nhBonus_threshold100))))"

lemma nhnl_points_base:
  "nhnl_points nh nl =
     min W_nhNl (dround1 (if nhBonus nh = 0 then nhnl_base nh nl
                          else fl (nhnl_base nh nl + nhBonus nh)))"
  by (simp add: nhnl_points_def nhnl_base_def Let_def)

lemma ratio_bounds:
  fixes nh nl :: real
  assumes "0 \<le> nh" "0 \<le> nl" "0 < nh + nl"
  shows "0 \<le> nh / (nh + nl)" "nh / (nh + nl) \<le> 1"
  using assms by simp_all

lemma scaled_bounds:
  assumes "0 \<le> nh" "0 \<le> nl" "0 < nh + nl"
  shows "0 \<le> fl (nh / (nh + nl))" "fl (nh / (nh + nl)) \<le> 1"
    "0 \<le> fl (fl (nh / (nh + nl)) * 10)" "fl (fl (nh / (nh + nl)) * 10) \<le> 10"
proof -
  show a: "0 \<le> fl (nh / (nh + nl))" using ratio_bounds(1) [OF assms] by (rule fl_nonneg)
  show b: "fl (nh / (nh + nl)) \<le> 1"
    using fl_le_nat [of "nh / (nh + nl)" 1] ratio_bounds [OF assms] by simp
  show "0 \<le> fl (fl (nh / (nh + nl)) * 10)" using a by (intro fl_nonneg) simp
  show "fl (fl (nh / (nh + nl)) * 10) \<le> 10"
    using fl_le_nat [of "fl (nh / (nh + nl)) * 10" 10] a b by simp
qed

lemma nhnl_base_bounds:
  assumes "0 \<le> nh" "0 \<le> nl"
  shows "0 \<le> nhnl_base nh nl" "nhnl_base nh nl \<le> 10"
proof -
  have "0 \<le> nhnl_base nh nl \<and> nhnl_base nh nl \<le> 10"
  proof (cases "nh + nl = 0")
    case True
    then show ?thesis by (simp add: nhnl_base_def)
  next
    case False
    with assms have pos: "0 < nh + nl" by linarith
    from scaled_bounds [OF assms pos] dround1_bounds(5,6) [of "fl (fl (nh / (nh + nl)) * 10)" 10]
    show ?thesis using False by (simp add: nhnl_base_def config_defs)
  qed
  then show "0 \<le> nhnl_base nh nl" "nhnl_base nh nl \<le> 10" by simp_all
qed

lemma nhBonus_range: "nhBonus nh = 0 \<or> nhBonus nh = 2 \<or> nhBonus nh = 3"
  by (simp add: nhBonus_def config_defs)

lemma nhnl_total_bounds:
  assumes "0 \<le> nh" "0 \<le> nl"
  shows "0 \<le> (if nhBonus nh = 0 then nhnl_base nh nl else fl (nhnl_base nh nl + nhBonus nh))"
    "(if nhBonus nh = 0 then nhnl_base nh nl else fl (nhnl_base nh nl + nhBonus nh)) \<le> 13"
proof -
  note b = nhnl_base_bounds [OF assms]
  have "0 \<le> fl (nhnl_base nh nl + nhBonus nh)"
    using b nhBonus_range [of nh] by (intro fl_nonneg) auto
  moreover have "fl (nhnl_base nh nl + nhBonus nh) \<le> 13"
    using fl_le_nat [of "nhnl_base nh nl + nhBonus nh" 13] b nhBonus_range [of nh] by auto
  ultimately show "0 \<le> (if nhBonus nh = 0 then nhnl_base nh nl else fl (nhnl_base nh nl + nhBonus nh))"
    "(if nhBonus nh = 0 then nhnl_base nh nl else fl (nhnl_base nh nl + nhBonus nh)) \<le> 13"
    using b by simp_all
qed

lemma nhnl_points_bounds:
  assumes "0 \<le> nh" "0 \<le> nl"
  shows "0 \<le> nhnl_points nh nl \<and> nhnl_points nh nl \<le> W_nhNl"
proof -
  from nhnl_total_bounds [OF assms] dround1_bounds(5)
  have "0 \<le> dround1 (if nhBonus nh = 0 then nhnl_base nh nl else fl (nhnl_base nh nl + nhBonus nh))"
    by (metis dround1_def fl_nonneg mathRound_nonneg mult_nonneg_nonneg zero_le_numeral divide_nonneg_nonneg)
  then show ?thesis unfolding nhnl_points_base by (simp add: W_nhNl_def)
qed

lemma dbl_0: "dbl 0 = Fin 0"
  by (simp add: dbl_def fl_0)

lemma dbl_small_nat:
  assumes "0 \<le> x" "x \<le> real n" "n \<le> 2 ^ 53"
  shows "dbl x = Fin (fl x)"
proof -
  have "real n \<le> real (2 ^ 53)" using assms(3) by (simp only: of_nat_le_iff)
  with assms(2) have "x \<le> 2 ^ 53" by simp
  with assms(1) show ?thesis by (rule dbl_small)
qed

lemma dround1_num:
  assumes "0 \<le> x" "x \<le> real n" "10 * n \<le> 2 ^ 53"
  shows "ddiv (num_round (dmul (Fin x) (Fin 10))) (Fin 10) = Fin (dround1 x)"
proof -
  note b = dround1_bounds [OF assms]
  have le: "real (10 * n) \<le> 2 ^ 53"
    using assms(3) of_nat_le_iff [of "10 * n" "2 ^ 53", where ?'a = real] by simp
  have "x * 10 \<le> real (10 * n)" using assms(2) by simp
  with le have "x * 10 \<le> 2 ^ 53" by linarith
  moreover have "0 \<le> x * 10" using assms(1) by simp
  ultimately have m: "dbl (x * 10) = Fin (fl (x * 10))" by (simp add: dbl_small)
  have "mathRound (fl (x * 10)) / 10 \<le> 2 ^ 53" using b(4) le by simp
  moreover have "0 \<le> mathRound (fl (x * 10)) / 10" using b(3) by simp
  ultimately show ?thesis by (simp add: m dbl_small dround1_def)
qed

lemma dround1_0: "dround1 0 = 0"
  by (simp add: dround1_def fl_0 mathRound_def)

lemma factor4_exact_sum:
  assumes nn: "0 \<le> a" "0 \<le> b" and le: "a + b \<le> 2 ^ 53" and ex: "fl (a + b) = a + b"
  shows "factor4 (Fin a) (Fin b) = Fin (nhnl_points a b)"
proof -
  have sum: "dbl (a + b) = Fin (a + b)"
    using nn le ex by (simp add: dbl_small)
  define base where "base = nhnl_base a b"
  have s4: "(if num_gt (dadd (Fin a) (Fin b)) (Fin 0)
             then ddiv (num_round (dmul (dmul (ddiv (Fin a) (dadd (Fin a) (Fin b)))
                                        (Fin (W_nhNl - nhBonus_threshold100))) (Fin 10))) (Fin 10)
             else Fin 0) = Fin base"
  proof (cases "a + b = 0")
    case True
    then show ?thesis by (simp add: dbl_0 num_gt_def base_def nhnl_base_def)
  next
    case False
    with nn have pos: "0 < a + b" by linarith
    note sb = scaled_bounds [OF nn pos]
    have q: "dbl (a / (a + b)) = Fin (fl (a / (a + b)))"
      using ratio_bounds [OF nn pos] dbl_small_nat [of "a / (a + b)" 1] by simp
    have q10: "dbl (fl (a / (a + b)) * 10) = Fin (fl (fl (a / (a + b)) * 10))"
      using sb(1,2) dbl_small_nat [of "fl (a / (a + b)) * 10" 10] by simp
    have r: "ddiv (num_round (dmul (Fin (fl (fl (a / (a + b)) * 10))) (Fin 10))) (Fin 10)
        = Fin (dround1 (fl (fl (a / (a + b)) * 10)))"
      using sb(3,4) by (intro dround1_num [of _ 10]) simp_all
    have "ddiv (num_round (dmul (dmul (ddiv (Fin a) (dadd (Fin a) (Fin b)))
            (Fin (W_nhNl - nhBonus_threshold100))) (Fin 10))) (Fin 10) = Fin base"
      using False by (simp add: sum q q10 r [simplified] base_def nhnl_base_def config_defs)
    then show ?thesis using pos by (simp add: sum num_gt_def)
  qed
  note bb = nhnl_base_bounds [OF nn, folded base_def]
  define total where "total = (if nhBonus a = 0 then base else fl (base + nhBonus a))"
  have s4': "(if num_ge (Fin a) (Fin 100) then dadd (Fin base) (Fin nhBonus_threshold100)
              else if num_ge (Fin a) (Fin 50) then dadd (Fin base) (Fin nhBonus_threshold50)
              else Fin base) = Fin total"
    using bb dbl_small_nat [of "base + 3" 13] dbl_small_nat [of "base + 2" 13]
    by (simp add: total_def nhBonus_def num_ge_def config_defs)
  have tb: "0 \<le> total" "total \<le> real 13"
    using nhnl_total_bounds [OF nn] unfolding total_def base_def by (simp_all split: if_splits)
  have fin: "ddiv (num_round (dmul (Fin total) (Fin 10))) (Fin 10) = Fin (dround1 total)"
    using tb by (rule dround1_num) simp
  have "factor4 (Fin a) (Fin b) = num_min (Fin W_nhNl) (Fin (dround1 total))"
    unfolding factor4_def Let_def s4 s4' fin ..
  also have "\<dots> = Fin (min W_nhNl (dround1 total))" by (simp add: min_def)
  also have "\<dots> = Fin (nhnl_points a b)"
    by (simp add: nhnl_points_base total_def base_def)
  finally show ?thesis .
qed

lemma factor4_counts:
  assumes "nh + nl \<le> 2 ^ 53"
  shows "factor4 (Fin (real nh)) (Fin (real nl)) = Fin (nhnl_points (real nh) (real nl))"
proof -
  have e: "real nh + real nl = real (nh + nl)" by simp
  have "real (nh + nl) \<le> real (2 ^ 53)" using assms by (simp only: of_nat_le_iff)
  then have "real nh + real nl \<le> 2 ^ 53" by simp
  moreover have "fl (real nh + real nl) = real nh + real nl"
    unfolding e using assms by (rule fl_nat)
  ultimately show ?thesis by (intro factor4_exact_sum) simp_all
qed

lemma ratio_mono:
  fixes nh nh' nl :: real
  assumes "0 \<le> nh" "nh \<le> nh'" "0 \<le> nl" "0 < nh + nl"
  shows "nh / (nh + nl) \<le> nh' / (nh' + nl)"
proof -
  have p: "0 < nh' + nl" using assms by linarith
  have "nh * nl \<le> nh' * nl" using assms by (simp add: mult_right_mono)
  then show ?thesis using assms(4) p by (simp add: field_simps)
qed

lemma nhnl_base_mono:
  assumes "0 \<le> nh" "nh \<le> nh'" "0 \<le> nl"
  shows "nhnl_base nh nl \<le> nhnl_base nh' nl"
proof (cases "nh + nl = 0")
  case True
  have "0 \<le> nh'" using assms by linarith
  from nhnl_base_bounds(1) [OF this assms(3)] True show ?thesis by (simp add: nhnl_base_def)
next
  case False
  with assms have pos: "0 < nh + nl" by linarith
  then have pos': "0 < nh' + nl" using assms by linarith
  have nn': "0 \<le> nh'" using assms by linarith
  have "fl (nh / (nh + nl)) \<le> fl (nh' / (nh' + nl))"
    using ratio_bounds(1) [OF assms(1,3) pos] ratio_mono [OF assms pos] by (rule fl_mono)
  then have "fl (nh / (nh + nl)) * 10 \<le> fl (nh' / (nh' + nl)) * 10" by simp
  moreover have "0 \<le> fl (nh / (nh + nl)) * 10" using scaled_bounds(1) [OF assms(1,3) pos] by simp
  ultimately have "fl (fl (nh / (nh + nl)) * 10) \<le> fl (fl (nh' / (nh' + nl)) * 10)"
    by (intro fl_mono)
  with scaled_bounds(3) [OF assms(1,3) pos]
  have "dround1 (fl (fl (nh / (nh + nl)) * 10)) \<le> dround1 (fl (fl (nh' / (nh' + nl)) * 10))"
    by (rule dround1_mono)
  then show ?thesis using pos pos' by (simp add: nhnl_base_def config_defs)
qed

lemma nhnl_base_double:
  assumes "0 \<le> nh" "0 \<le> nl"
  shows "nhnl_base nh nl \<le> fl (nhnl_base nh nl + 2)"
proof (cases "nh + nl = 0")
  case True
  have "(0::real) \<le> fl 2" by (intro fl_nonneg) simp
  with True show ?thesis by (simp add: nhnl_base_def)
next
  case False
  with assms have pos: "0 < nh + nl" by linarith
  define y where "y = fl (fl (nh / (nh + nl)) * 10)"
  define z where "z = mathRound (fl (y * 10)) / 10"
  have y: "0 \<le> y" "y \<le> real 10" using scaled_bounds(3,4) [OF assms(1,2) pos] by (simp_all add: y_def)
  have z: "0 \<le> z" "z \<le> 2 ^ 53"
    using dround1_bounds(3,4) [OF y] by (simp_all add: z_def)
  have b: "nhnl_base nh nl = fl z" using False by (simp add: nhnl_base_def dround1_def z_def y_def config_defs)
  have "z \<le> fl z + 2" using z by (rule fl_near)
  with z(1) have "fl z \<le> fl (fl z + 2)" by (rule fl_mono)
  then show ?thesis by (simp add: b)
qed

lemma nhnl_points_mono:
  assumes "0 \<le> nh" "nh \<le> nh'" "0 \<le> nl"
  shows "nhnl_points nh nl \<le> nhnl_points nh' nl"
proof -
  have nn': "0 \<le> nh'" using assms by linarith
  let ?t = "\<lambda>h. if nhBonus h = 0 then nhnl_base h nl else fl (nhnl_base h nl + nhBonus h)"
  note bm = nhnl_base_mono [OF assms]
  note b = nhnl_base_bounds [OF assms(1,3)]
  note b' = nhnl_base_bounds [OF nn' assms(3)]
  note bo = nhBonus_mono [OF assms(2)]
  have "?t nh \<le> ?t nh'"
  proof (cases "nhBonus nh = 0")
    case z: True
    show ?thesis
    proof (cases "nhBonus nh' = 0")
      case True
      with z bm show ?thesis by simp
    next
      case False
      then have two: "2 \<le> nhBonus nh'" using nhBonus_range [of nh'] by auto
      have "nhnl_base nh' nl \<le> fl (nhnl_base nh' nl + 2)"
        using nn' assms(3) by (rule nhnl_base_double)
      also have "\<dots> \<le> fl (nhnl_base nh' nl + nhBonus nh')"
        using b'(1) two by (intro fl_mono) simp_all
      finally show ?thesis using z False bm by simp
    qed
  next
    case False
    then have pos: "0 < nhBonus nh" using nhBonus_range [of nh] by auto
    with bo have ne: "nhBonus nh' \<noteq> 0" by linarith
    have "fl (nhnl_base nh nl + nhBonus nh) \<le> fl (nhnl_base nh' nl + nhBonus nh')"
      using b(1) pos bm bo by (intro fl_mono) simp_all
    with False ne show ?thesis by simp
  qed
  with nhnl_total_bounds(1) [OF assms(1,3)] have "dround1 (?t nh) \<le> dround1 (?t nh')"
    by (rule dround1_mono)
  then show ?thesis unfolding nhnl_points_base by (simp add: min_le_iff_disj)
qed

lemma nonneg_cases:
  assumes "num_le (Fin 0) v"
  obtains "v = PosInf" | x where "v = Fin x" "0 \<le> x"
  using assms by (cases v) auto

lemma dmul_nonneg:
  assumes "num_le (Fin 0) v" "0 < c"
  shows "num_le (Fin 0) (dmul v (Fin c))"
  using assms(1)
proof (cases rule: nonneg_cases)
  case 1
  then show ?thesis using assms(2) by (simp add: infOfSign_def)
next
  case (2 x)
  then have "0 \<le> x * c" using assms(2) by simp
  then show ?thesis using 2 by (simp add: dbl_nonneg)
qed

lemma ddiv_nonneg:
  assumes "num_le (Fin 0) v" "0 < c"
  shows "num_le (Fin 0) (ddiv v (Fin c))"
  using assms(1)
proof (cases rule: nonneg_cases)
  case 1
  then show ?thesis using assms(2) by (simp add: infOfSign_def)
next
  case (2 x)
  then have "0 \<le> x / c" using assms(2) by simp
  then show ?thesis using 2 assms(2) by (simp add: dbl_nonneg)
qed

lemma dadd_nonneg:
  assumes "num_le (Fin 0) v" "0 \<le> c"
  shows "num_le (Fin 0) (dadd v (Fin c))"
  using assms(1)
proof (cases rule: nonneg_cases)
  case 1
  then show ?thesis by simp
next
  case (2 x)
  then have "0 \<le> x + c" using assms(2) by simp
  then show ?thesis using 2 by (simp add: dbl_nonneg)
qed

lemma num_round_nonneg:
  assumes "num_le (Fin 0) v"
  shows "num_le (Fin 0) (num_round v)"
  using assms by (cases rule: nonneg_cases) (simp_all add: mathRound_nonneg)

lemma round1_nonneg_num:
  assumes "num_le (Fin 0) v"
  shows "num_le (Fin 0) (ddiv (num_round (dmul v (Fin 10))) (Fin 10))"
  using assms by (intro ddiv_nonneg num_round_nonneg dmul_nonneg) simp_all

lemma ratio_nonneg:
  assumes "0 \<le> a" "num_gt s (Fin 0)"
  shows "num_le (Fin 0) (ddiv (Fin a) s)"
proof (cases s)
  case (Fin x)
  with assms(2) have "0 < x" by (simp add: num_gt_def)
  then have "0 \<le> a / x" using assms(1) by simp
  then show ?thesis using Fin \<open>0 < x\<close> by (simp add: dbl_nonneg)
qed (use assms(2) in \<open>simp_all add: num_gt_def\<close>)

lemma num_min_cap:
  assumes "num_le (Fin 0) v" "0 \<le> w"
  shows "\<exists>s. num_min (Fin w) v = Fin s \<and> 0 \<le> s \<and> s \<le> w"
  using assms(1) by (cases rule: nonneg_cases) (use assms(2) in auto)

lemma factor4_bounded:
  assumes "0 \<le> a" "0 \<le> b"
  shows "\<exists>s. factor4 (Fin a) (Fin b) = Fin s \<and> 0 \<le> s \<and> s \<le> W_nhNl"
proof -
  define s4 where "s4 = (if num_gt (dadd (Fin a) (Fin b)) (Fin 0)
      then ddiv (num_round (dmul (dmul (ddiv (Fin a) (dadd (Fin a) (Fin b)))
                                   (Fin (W_nhNl - nhBonus_threshold100))) (Fin 10))) (Fin 10)
      else Fin 0)"
  have n4: "num_le (Fin 0) s4"
  proof (cases "num_gt (dadd (Fin a) (Fin b)) (Fin 0)")
    case True
    have "num_le (Fin 0) (ddiv (Fin a) (dadd (Fin a) (Fin b)))"
      using assms(1) True by (rule ratio_nonneg)
    then have "num_le (Fin 0) (dmul (ddiv (Fin a) (dadd (Fin a) (Fin b)))
        (Fin (W_nhNl - nhBonus_threshold100)))"
      by (rule dmul_nonneg) (simp add: config_defs)
    then show ?thesis unfolding s4_def using True by (simp only: if_True round1_nonneg_num)
  next
    case False
    then show ?thesis unfolding s4_def by simp
  qed
  define s4' where "s4' = (if num_ge (Fin a) (Fin 100) then dadd s4 (Fin nhBonus_threshold100)
      else if num_ge (Fin a) (Fin 50) then dadd s4 (Fin nhBonus_threshold50) else s4)"
  have "num_le (Fin 0) s4'"
    unfolding s4'_def using n4 by (simp add: dadd_nonneg config_defs del: dadd.simps)
  then have "num_le (Fin 0) (ddiv (num_round (dmul s4' (Fin 10))) (Fin 10))"
    by (rule round1_nonneg_num)
  then have "\<exists>s. num_min (Fin W_nhNl) (ddiv (num_round (dmul s4' (Fin 10))) (Fin 10)) = Fin s
      \<and> 0 \<le> s \<and> s \<le> W_nhNl"
    by (rule num_min_cap) (simp add: config_defs)
  then show ?thesis unfolding factor4_def Let_def s4_def s4'_def .
qed

lemma factor4_infinite: "factor4 PosInf (Fin 0) = NaN"
  by (simp add: factor4_def Let_def num_gt_def num_ge_def infOfSign_def config_defs)

lemmas dbl_eval = dbl_def fl_def ulpExp_def binExp_def expUp.simps expDown.simps roundEven_def
  mathRound_def Let_def

lemmas factor4_eval = factor4_def num_gt_def num_ge_def config_defs dbl_eval


section \<open>The claims about the classifier and the score\<close>

lemma derivePhase_range: "derivePhase s \<in> {1, 2, 3, 4}"
  by (simp add: derivePhase_def Let_def)

lemma derivePhase_examples:
  "derivePhase [(''RS_21'', JNum (Fin 50)), (''ER_1W'', JNum (Fin 1))] = 4"
  "derivePhase [(''RS_21'', JNum (Fin 30)), (''ER_1W'', JNum (Fin 1))] = 3"
  "derivePhase [(''RS_21'', JNum (Fin 30)), (''ER_1W'', JNum (Fin 0))] = 2"
  by (simp_all add: derivePhase_def getProp_def num_or_def num_truthy_def num_ge_def
      num_gt_def config_defs)

lemma derivePhase_defaults:
  "derivePhase [] = derivePhase [(''RS_21'', JNum (Fin 50)), (''ER_1W'', JNum (Fin 0))]"
  "derivePhase [(''RS_21'', JStr ''n/a''), (''ER_1W'', JNull)] = derivePhase []"
  by code_simp+

text \<open>
  Claim C2. \<open>derivePhase\<close> returns a phase from 1 to 4 on every record
  (\<open>derivePhase_range\<close>), a missing or unparseable \<open>RS_21\<close> counts as 50 and a missing
  \<open>ER_1W\<close> as 0 (\<open>derivePhase_defaults\<close>), and the first three examples of the
  claim hold (\<open>derivePhase_examples\<close>). The fourth does not: a relative strength of 0
  is falsy, so \<open>parseFloat(sector.RS_21) || 50\<close> replaces it by 50, and with a
  revision of -1 the record is classified as phase 2, not phase 1.
\<close>

theorem derivePhase_rs_zero:
  "derivePhase [(''RS_21'', JNum (Fin 0)), (''ER_1W'', JNum (Fin (- 1)))] = 2"
  by (simp add: derivePhase_def getProp_def num_or_def num_truthy_def num_ge_def
      num_gt_def config_defs)

lemma enrich_below:
  assumes "getProp r ''Dist_21EMA%'' = JNum x" "num_le x (Fin (- insideBand))"
  shows "emaPos (enrich r) = ''below''"
proof (cases x)
  case (Fin a)
  with assms(2) have "a \<le> - 1" by (simp add: insideBand_def)
  with Fin assms(1) show ?thesis
    by (simp add: enrich_def Let_def num_or_def num_truthy_def num_gt_def insideBand_def)
next
  case NegInf
  with assms(1) show ?thesis
    by (simp add: enrich_def Let_def num_or_def num_truthy_def num_gt_def insideBand_def)
qed (use assms(2) in simp_all)

lemma foldl_add1_below:
  "\<forall>e \<in> set es. emaPos e = ''below'' \<Longrightarrow> foldl add1 s es = s"
  by (induction es arbitrary: s) (simp_all add: add1_def)

lemma factor1_below:
  assumes "\<forall>r \<in> set indices. \<exists>x. getProp r ''Dist_21EMA%'' = JNum x \<and> num_le x (Fin (- insideBand))"
  shows "factor1 (map enrich indices) = 0"
proof -
  have "\<forall>e \<in> set (map enrich indices). emaPos e = ''below''"
    using assms enrich_below by auto
  then have "foldl add1 0 (map enrich indices) = 0" by (rule foldl_add1_below)
  then show ?thesis by (simp add: factor1_def mathRound_0)
qed

lemma calcExposure_pts:
  "map pts (components (calcExposure indices b sectors)) =
     [Fin (factor1 (map enrich indices)), Fin (factor2 (map enrich indices)),
      Fin (factor3 (num_or (toraku25 b) (Fin 0))),
      factor4 (num_or (newHigh b) (Fin 0)) (num_or (newLow b) (Fin 0)),
      Fin (factor5 advPctSteps (num_or (advPct b) (Fin 0))), Fin (factor6 sectors)]"
  by (simp add: calcExposure_def Let_def)

lemma calcExposure_raw:
  "raw (calcExposure indices b sectors) =
     num_div (num_round (num_mul
       (foldl num_add (Fin 0) (map pts (components (calcExposure indices b sectors)))) (Fin 10)))
       (Fin 10)"
  by (simp add: calcExposure_def Let_def)

lemma calcExposure_score:
  "score (calcExposure indices b sectors) =
     (if factor1 (map enrich indices) = 0 then Fin 0
      else num_div (num_round (num_mul (num_min (Fin 100)
             (foldl num_add (Fin 0) (map pts (components (calcExposure indices b sectors)))))
             (Fin 10))) (Fin 10))"
  by (simp add: calcExposure_def Let_def)

text \<open>
  Claim C1. When the \<open>Dist_21EMA%\<close> of every index row is a number at most minus the
  band, the first component is the index-against-21-EMA factor with 0 points, the kill
  switch is set, the score is 0 and the label is \<open>RISK OFF\<close>, whatever the breadth
  summary and the sectors are.
\<close>

theorem killSwitch_overrides_score:
  assumes "\<forall>r \<in> set indices. \<exists>x. getProp r ''Dist_21EMA%'' = JNum x \<and> num_le x (Fin (- insideBand))"
  shows "name (components (calcExposure indices b sectors) ! 0) = name1
       \<and> pts (components (calcExposure indices b sectors) ! 0) = Fin 0
       \<and> killSwitch (calcExposure indices b sectors)
       \<and> score (calcExposure indices b sectors) = Fin 0
       \<and> label (calcExposure indices b sectors) = ''RISK OFF''"
  using factor1_below [OF assms] by (simp add: calcExposure_def Let_def labelOf_def)

text \<open>
  An input on which the other five factors give 10 + 17 + 13 + 10 + 15 = 65 points,
  above 60, while all three indices are below the band.
\<close>

definition bearIndices :: "row list" where
  "bearIndices =
     [[(''Name'', JStr ''Nikkei 225''), (''Dist_21EMA%'', JNum (Fin (- 2))), (''Dist_50MA%'', JNum (Fin 1))],
      [(''Name'', JStr ''TOPIX''), (''Dist_21EMA%'', JNum (Fin (- 1))), (''Dist_50MA%'', JNum (Fin 2))],
      [(''Name'', JStr ''Growth 250''), (''Dist_21EMA%'', JNum (Fin (- 3))), (''Dist_50MA%'', JNum (Fin (1 / 2)))]]"

definition strongBreadth :: breadth where
  "strongBreadth = \<lparr> toraku25 = Fin 110, newHigh = Fin 100, newLow = Fin 0, advPct = Fin 60 \<rparr>"

definition strongSectors :: "row list" where
  "strongSectors =
     [[(''Sector'', JStr ''Tech''), (''RS_21'', JNum (Fin 60)), (''ER_1W'', JNum (Fin 1)),
       (''Band80_Pct'', JNum (Fin 30))]]"

theorem killSwitch_overrides_score_witness:
  "name (components (calcExposure bearIndices strongBreadth strongSectors) ! 0) = name1
   \<and> pts (components (calcExposure bearIndices strongBreadth strongSectors) ! 0) = Fin 0
   \<and> killSwitch (calcExposure bearIndices strongBreadth strongSectors)
   \<and> score (calcExposure bearIndices strongBreadth strongSectors) = Fin 0
   \<and> label (calcExposure bearIndices strongBreadth strongSectors) = ''RISK OFF''
   \<and> map pts (tl (components (calcExposure bearIndices strongBreadth strongSectors)))
       = [Fin 10, Fin 17, Fin 13, Fin 10, Fin 15]
   \<and> raw (calcExposure bearIndices strongBreadth strongSectors) = Fin 65"
proof -
  have h: "\<forall>r \<in> set bearIndices. \<exists>x. getProp r ''Dist_21EMA%'' = JNum x \<and> num_le x (Fin (- insideBand))"
    by (simp add: bearIndices_def getProp_def insideBand_def)
  have f: "factor1 (map enrich bearIndices) = 0" "factor2 (map enrich bearIndices) = 10"
    "factor3 (num_or (toraku25 strongBreadth) (Fin 0)) = 17"
    "factor5 advPctSteps (num_or (advPct strongBreadth) (Fin 0)) = 10"
    "factor6 strongSectors = 15"
    by code_simp+
  have f4: "factor4 (num_or (newHigh strongBreadth) (Fin 0)) (num_or (newLow strongBreadth) (Fin 0))
      = Fin 13"
    by (simp add: strongBreadth_def num_or_def num_truthy_def factor4_eval)
  have p: "map pts (components (calcExposure bearIndices strongBreadth strongSectors))
       = [Fin 0, Fin 10, Fin 17, Fin 13, Fin 10, Fin 15]"
    by (simp add: calcExposure_pts f f4)
  then have others: "map pts (tl (components (calcExposure bearIndices strongBreadth strongSectors)))
       = [Fin 10, Fin 17, Fin 13, Fin 10, Fin 15]"
    by (simp add: map_tl)
  have rw: "raw (calcExposure bearIndices strongBreadth strongSectors) = Fin 65"
    by (simp add: calcExposure_raw p mathRound_def)
  from killSwitch_overrides_score [OF h, of strongBreadth strongSectors] others rw
  show ?thesis by simp
qed

lemma components_nth:
  "pts (components (calcExposure indices b sectors) ! 3)
     = factor4 (num_or (newHigh b) (Fin 0)) (num_or (newLow b) (Fin 0))"
  by (simp add: calcExposure_def Let_def)

text \<open>
  Claim C5, as stated: with the new lows fixed, more new highs would never give fewer
  points. With 17679268102395490 new lows, 7046980991863936 new highs give 5.9 points and
  one new high more gives 5.8: the sum of the two counts is rounded to a double, the
  rounded sum grows by 4 where the count grows by 1, and the ratio falls from just
  above 0.285 to just below it.
\<close>

theorem nhnl_not_monotone:
  "pts (components (calcExposure []
       \<lparr> toraku25 = Fin 100, newHigh = Fin 7046980991863936, newLow = Fin 17679268102395490,
         advPct = Fin 50 \<rparr> []) ! 3) = Fin (fl (59 / 10))
   \<and> pts (components (calcExposure []
       \<lparr> toraku25 = Fin 100, newHigh = Fin 7046980991863937, newLow = Fin 17679268102395490,
         advPct = Fin 50 \<rparr> []) ! 3) = Fin (fl (58 / 10))
   \<and> \<not> num_le
       (pts (components (calcExposure []
          \<lparr> toraku25 = Fin 100, newHigh = Fin 7046980991863936, newLow = Fin 17679268102395490,
            advPct = Fin 50 \<rparr> []) ! 3))
       (pts (components (calcExposure []
          \<lparr> toraku25 = Fin 100, newHigh = Fin 7046980991863937, newLow = Fin 17679268102395490,
            advPct = Fin 50 \<rparr> []) ! 3))"
proof -
  have a: "factor4 (Fin 7046980991863936) (Fin 17679268102395490) = Fin (fl (59 / 10))"
    by (simp add: factor4_eval)
  have b: "factor4 (Fin 7046980991863937) (Fin 17679268102395490) = Fin (fl (58 / 10))"
    by (simp add: factor4_eval)
  have c: "fl (58 / 10) < fl (59 / 10)"
    by (simp add: dbl_eval)
  from a b c show ?thesis
    by (simp add: components_nth num_or_def num_truthy_def)
qed

text \<open>
  Claim C5, amended: on counts whose sum is at most \<open>2\<^sup>5\<^sup>3\<close>, so that the sum is exact, the
  points of the new-high/new-low factor are the ratio of new highs times (weight minus
  bonus ceiling), rounded to one decimal place (0 when both counts are 0), plus 3 from
  100 new highs and 2 from 50, rounded to one decimal place again and capped at the
  weight 13, every operation rounding to a double; the points lie between 0 and 13; and
  with the new lows fixed, more new highs never give fewer points.
\<close>

theorem nhnl_points_monotone:
  assumes "newHigh b = Fin (real nh)" "newLow b = Fin (real nl)" "nh \<le> nh'" "nh' + nl \<le> 2 ^ 53"
  shows "pts (components (calcExposure indices b sectors) ! 3) = Fin (nhnl_points (real nh) (real nl))
       \<and> 0 \<le> nhnl_points (real nh) (real nl) \<and> nhnl_points (real nh) (real nl) \<le> W_nhNl
       \<and> num_le (pts (components (calcExposure indices b sectors) ! 3))
                 (pts (components (calcExposure indices (b\<lparr> newHigh := Fin (real nh') \<rparr>) sectors) ! 3))"
proof -
  have le: "nh + nl \<le> 2 ^ 53" using assms(3,4) by simp
  have a: "pts (components (calcExposure indices b sectors) ! 3) = Fin (nhnl_points (real nh) (real nl))"
    using assms(1,2) by (simp add: components_nth num_or_Fin factor4_counts [OF le])
  have b: "pts (components (calcExposure indices (b\<lparr> newHigh := Fin (real nh') \<rparr>) sectors) ! 3)
      = Fin (nhnl_points (real nh') (real nl))"
    using assms(2) by (simp add: components_nth num_or_Fin factor4_counts [OF assms(4)])
  have "nhnl_points (real nh) (real nl) \<le> nhnl_points (real nh') (real nl)"
    using assms(3) by (intro nhnl_points_mono) simp_all
  moreover have "0 \<le> nhnl_points (real nh) (real nl) \<and> nhnl_points (real nh) (real nl) \<le> W_nhNl"
    by (intro nhnl_points_bounds) simp_all
  ultimately show ?thesis unfolding a b by simp
qed

theorem nhnl_points_monotone_witness:
  "pts (components (calcExposure bearIndices
         \<lparr> toraku25 = Fin 100, newHigh = Fin 49, newLow = Fin 51, advPct = Fin 50 \<rparr> strongSectors) ! 3)
     = Fin (fl (49 / 10))
   \<and> pts (components (calcExposure bearIndices
         \<lparr> toraku25 = Fin 100, newHigh = Fin 50, newLow = Fin 51, advPct = Fin 50 \<rparr> strongSectors) ! 3)
     = Fin 7
   \<and> num_le (Fin (fl (49 / 10))) (Fin 7)
   \<and> nhnl_points 47 153 = fl (23 / 10)"
proof -
  let ?b = "\<lparr> toraku25 = Fin 100, newHigh = Fin 49, newLow = Fin 51, advPct = Fin 50 \<rparr>"
  have v: "nhnl_points 49 51 = fl (49 / 10)"
    using factor4_counts [of 49 51] by (simp add: factor4_eval)
  have w: "pts (components (calcExposure bearIndices (?b\<lparr> newHigh := Fin 50 \<rparr>) strongSectors) ! 3) = Fin 7"
    by (simp add: components_nth num_or_def num_truthy_def factor4_eval)
  have u: "nhnl_points 47 153 = fl (23 / 10)"
    using factor4_counts [of 47 153] by (simp add: factor4_eval)
  have h: "newHigh ?b = Fin (real 49)" "newLow ?b = Fin (real 51)" "(49::nat) \<le> 50"
    "(50::nat) + 51 \<le> 2 ^ 53"
    by simp_all
  note t = nhnl_points_monotone [OF h, of bearIndices strongSectors]
  note t1 = t [THEN conjunct1] and t4 = t [THEN conjunct2, THEN conjunct2, THEN conjunct2]
  from t1 t4 v w u show ?thesis by simp
qed

definition bullIndices :: "row list" where
  "bullIndices =
     [[(''Name'', JStr ''Nikkei 225''), (''Dist_21EMA%'', JNum (Fin 2)), (''Dist_50MA%'', JNum (Fin 1))],
      [(''Name'', JStr ''TOPIX''), (''Dist_21EMA%'', JNum (Fin 3)), (''Dist_50MA%'', JNum (Fin 2))],
      [(''Name'', JStr ''Growth 250''), (''Dist_21EMA%'', JStr ''1.5''), (''Dist_50MA%'', JNum (Fin (1 / 2)))]]"

lemma bull_factors:
  "factor1 (map enrich bullIndices) = 35" "factor2 (map enrich bullIndices) = 10"
  "factor3 (Fin 110) = 17" "factor5 advPctSteps (Fin 60) = 10" "factor6 strongSectors = 15"
  by code_simp+

text \<open>
  Claim C10, as stated: with at most three index rows and non-negative counts the
  points of every component would lie between 0 and the component's maximum, and the
  score between 0 and 100. Infinity is a non-negative count that \<open>parseFloat\<close> can
  deliver; with it the ratio of factor 4 is Infinity divided by Infinity, so the points
  of the fourth component are NaN, and with all indices above the band so is the score.
\<close>

theorem infinite_count_unbounded:
  "length bullIndices \<le> 3
   \<and> num_le (Fin 0) PosInf
   \<and> pts (components (calcExposure bullIndices
         \<lparr> toraku25 = Fin 110, newHigh = PosInf, newLow = Fin 0, advPct = Fin 60 \<rparr> strongSectors) ! 3)
       = NaN
   \<and> score (calcExposure bullIndices
         \<lparr> toraku25 = Fin 110, newHigh = PosInf, newLow = Fin 0, advPct = Fin 60 \<rparr> strongSectors)
       = NaN
   \<and> \<not> num_le (Fin 0) (pts (components (calcExposure bullIndices
         \<lparr> toraku25 = Fin 110, newHigh = PosInf, newLow = Fin 0, advPct = Fin 60 \<rparr> strongSectors) ! 3))
   \<and> \<not> num_le (score (calcExposure bullIndices
         \<lparr> toraku25 = Fin 110, newHigh = PosInf, newLow = Fin 0, advPct = Fin 60 \<rparr> strongSectors))
       (Fin 100)"
proof -
  let ?b = "\<lparr> toraku25 = Fin 110, newHigh = PosInf, newLow = Fin 0, advPct = Fin 60 \<rparr>"
  have f4: "factor4 (num_or (newHigh ?b) (Fin 0)) (num_or (newLow ?b) (Fin 0)) = NaN"
    by (simp add: num_or_def num_truthy_def factor4_infinite)
  have p: "map pts (components (calcExposure bullIndices ?b strongSectors))
      = [Fin 35, Fin 10, Fin 17, NaN, Fin 10, Fin 15]"
    using f4 by (simp add: calcExposure_pts bull_factors num_or_def num_truthy_def)
  have s: "score (calcExposure bullIndices ?b strongSectors) = NaN"
    by (simp add: calcExposure_score p bull_factors)
  have "pts (components (calcExposure bullIndices ?b strongSectors) ! 3) = NaN"
    using f4 by (simp add: components_nth)
  with s show ?thesis by (simp add: bullIndices_def)
qed

text \<open>
  Claim C10, amended: with at most three index rows and finite non-negative counts of
  new highs and new lows, the points of every component lie between 0 and the
  component's maximum, and the score lies between 0 and 100.
\<close>

theorem component_points_bounded:
  assumes "length indices \<le> 3" "newHigh b = Fin nh" "newLow b = Fin nl" "0 \<le> nh" "0 \<le> nl"
  shows "(\<forall>c \<in> set (components (calcExposure indices b sectors)).
            num_le (Fin 0) (pts c) \<and> num_le (pts c) (Fin (max_pts c)))
       \<and> num_le (Fin 0) (score (calcExposure indices b sectors))
       \<and> num_le (score (calcExposure indices b sectors)) (Fin 100)"
proof -
  define s1 where "s1 = factor1 (map enrich indices)"
  define s2 where "s2 = factor2 (map enrich indices)"
  define s3 where "s3 = factor3 (num_or (toraku25 b) (Fin 0))"
  define s5 where "s5 = factor5 advPctSteps (num_or (advPct b) (Fin 0))"
  define s6 where "s6 = factor6 sectors"
  obtain s4 where f4n: "factor4 (Fin nh) (Fin nl) = Fin s4" and b4: "0 \<le> s4" "s4 \<le> W_nhNl"
    using factor4_bounded [OF assms(4,5)] by blast
  have b1: "0 \<le> s1" "s1 \<le> W_ema21"
    using factor1_bounds [of "map enrich indices"] assms(1) by (simp_all add: s1_def)
  have b2: "0 \<le> s2" "s2 \<le> W_sma50"
    using factor2_bounds [of "map enrich indices"] assms(1) by (simp_all add: s2_def)
  have b3: "0 \<le> s3" "s3 \<le> W_toraku"
    using factor3_bounds by (simp_all add: s3_def)
  have b5: "0 \<le> s5" "s5 \<le> W_advPct"
    using factor5_bounds by (simp_all add: s5_def)
  have b6: "0 \<le> s6" "s6 \<le> W_sectorBreadth"
    using factor6_bounds by (simp_all add: s6_def)
  have f4: "factor4 (num_or (newHigh b) (Fin 0)) (num_or (newLow b) (Fin 0)) = Fin s4"
    using assms f4n by (simp add: num_or_Fin)
  define rw where "rw = s1 + s2 + s3 + s4 + s5 + s6"
  have rw: "0 \<le> rw" using b1 b2 b3 b4 b5 b6 by (simp add: rw_def)
  define sc where "sc = mathRound (min 100 rw * 10) / 10"
  have "min 100 rw * 10 \<le> real_of_int 1000 + 1 / 4" by simp
  then have "mathRound (min 100 rw * 10) \<le> real_of_int 1000" by (rule mathRound_le)
  moreover have "0 \<le> mathRound (min 100 rw * 10)"
    using rw by (simp add: mathRound_nonneg)
  ultimately have sc: "0 \<le> sc" "sc \<le> 100" by (simp_all add: sc_def)
  have comps: "components (calcExposure indices b sectors) =
      [\<lparr> name = name1, pts = Fin s1, max_pts = W_ema21, warningLabel = None \<rparr>,
       \<lparr> name = name2, pts = Fin s2, max_pts = W_sma50, warningLabel = None \<rparr>,
       \<lparr> name = name3, pts = Fin s3, max_pts = W_toraku,
          warningLabel = warning3 (num_or (toraku25 b) (Fin 0)) \<rparr>,
       \<lparr> name = name4, pts = Fin s4, max_pts = W_nhNl, warningLabel = None \<rparr>,
       \<lparr> name = name5, pts = Fin s5, max_pts = W_advPct, warningLabel = None \<rparr>,
       \<lparr> name = name6, pts = Fin s6, max_pts = W_sectorBreadth, warningLabel = None \<rparr>]"
    by (simp add: calcExposure_def Let_def f4 s1_def s2_def s3_def s5_def s6_def)
  have score: "score (calcExposure indices b sectors) = (if s1 = 0 then Fin 0 else Fin sc)"
    by (simp add: calcExposure_def Let_def f4 s1_def [symmetric] s2_def [symmetric]
        s3_def [symmetric] s5_def [symmetric] s6_def [symmetric] sc_def rw_def min_def)
  show ?thesis
    unfolding comps score using b1 b2 b3 b4 b5 b6 sc by simp
qed

theorem component_points_bounded_witness:
  "map pts (components (calcExposure bullIndices strongBreadth strongSectors))
     = [Fin 35, Fin 10, Fin 17, Fin 13, Fin 10, Fin 15]
   \<and> map max_pts (components (calcExposure bullIndices strongBreadth strongSectors))
     = [35, 10, 17, 13, 10, 15]
   \<and> score (calcExposure bullIndices strongBreadth strongSectors) = Fin 100
   \<and> num_le (Fin 0) (score (calcExposure bullIndices strongBreadth strongSectors))
   \<and> num_le (score (calcExposure bullIndices strongBreadth strongSectors)) (Fin 100)"
proof -
  have f4: "factor4 (Fin 100) (Fin 0) = Fin 13"
    by (simp add: factor4_eval)
  have p: "map pts (components (calcExposure bullIndices strongBreadth strongSectors))
     = [Fin 35, Fin 10, Fin 17, Fin 13, Fin 10, Fin 15]"
    by (simp add: calcExposure_pts bull_factors f4 strongBreadth_def num_or_def num_truthy_def)
  have m: "map max_pts (components (calcExposure bullIndices strongBreadth strongSectors))
     = [35, 10, 17, 13, 10, 15]"
    by (simp add: calcExposure_def Let_def config_defs)
  have s: "score (calcExposure bullIndices strongBreadth strongSectors) = Fin 100"
    by (simp add: calcExposure_score p bull_factors mathRound_def)
  have l: "length bullIndices \<le> 3" by (simp add: bullIndices_def)
  from component_points_bounded [OF l, of strongBreadth 100 0 strongSectors] p m s
  show ?thesis by (simp add: strongBreadth_def)
qed

section \<open>The CSV tokenizers (sheets.js, portfolio.js)\<close>

definition bom :: string where
  "bom = [CHR 0xEF, CHR 0xBB, CHR 0xBF]"

definition stripBom :: "string \<Rightarrow> string" where
  "stripBom text = (if prefix bom text then drop 3 text else text)"

text \<open>
  The first loop of \<open>parseCsv\<close>: the state is \<open>inQuotes\<close> and \<open>current\<close>, the result
  the lines pushed. A quote is never copied to the line, a doubled quote inside quotes
  leaves one quote on it.
\<close>

fun parseCsvLines :: "bool \<Rightarrow> string \<Rightarrow> string \<Rightarrow> string list" where
  "parseCsvLines inQuotes current [] = (if trim current \<noteq> [] then [current] else [])"
| "parseCsvLines inQuotes current (ch # rest) =
     (if ch = CHR 0x22 then
        (case rest of
           [] \<Rightarrow> parseCsvLines (\<not> inQuotes) current rest
         | c2 # rest' \<Rightarrow>
             if inQuotes \<and> c2 = CHR 0x22 then parseCsvLines inQuotes (current @ [CHR 0x22]) rest'
             else parseCsvLines (\<not> inQuotes) current rest)
      else if ch = CHR 0x0A \<and> \<not> inQuotes then current # parseCsvLines inQuotes [] rest
      else if ch = CHR 0x0D \<and> \<not> inQuotes then parseCsvLines inQuotes current rest
      else parseCsvLines inQuotes (current @ [ch]) rest)"

text \<open>
  \<open>splitCsvLines\<close> of portfolio.js: the same loop, but the quotes stay on the line
  (``preserve quote chars for splitRow'').
\<close>

fun splitCsvLines :: "bool \<Rightarrow> string \<Rightarrow> string \<Rightarrow> string list" where
  "splitCsvLines inQuotes current [] = (if trim current \<noteq> [] then [current] else [])"
| "splitCsvLines inQuotes current (ch # rest) =
     (if ch = CHR 0x22 then
        (case rest of
           [] \<Rightarrow> splitCsvLines (\<not> inQuotes) (current @ [CHR 0x22]) rest
         | c2 # rest' \<Rightarrow>
             if inQuotes \<and> c2 = CHR 0x22
             then splitCsvLines inQuotes (current @ [CHR 0x22, CHR 0x22]) rest'
             else splitCsvLines (\<not> inQuotes) (current @ [CHR 0x22]) rest)
      else if ch = CHR 0x0A \<and> \<not> inQuotes then current # splitCsvLines inQuotes [] rest
      else if ch = CHR 0x0D \<and> \<not> inQuotes then splitCsvLines inQuotes current rest
      else splitCsvLines inQuotes (current @ [ch]) rest)"

text \<open>\<open>splitRow\<close>, the same function in both files: the state is \<open>q\<close> and \<open>field\<close>.\<close>

fun splitRowFrom :: "bool \<Rightarrow> string \<Rightarrow> string \<Rightarrow> string list" where
  "splitRowFrom q field [] = [field]"
| "splitRowFrom q field (c # rest) =
     (if c = CHR 0x22 then
        (case rest of
           [] \<Rightarrow> splitRowFrom (\<not> q) field rest
         | c2 # rest' \<Rightarrow>
             if q \<and> c2 = CHR 0x22 then splitRowFrom q (field @ [CHR 0x22]) rest'
             else splitRowFrom (\<not> q) field rest)
      else if c = CHR '','' \<and> \<not> q then field # splitRowFrom q [] rest
      else splitRowFrom q (field @ [c]) rest)"

definition splitRow :: "string \<Rightarrow> string list" where
  "splitRow line = splitRowFrom False [] line"

text \<open>The rows of fields that \<open>parseCsv\<close> works on, and those of the portfolio view.\<close>

definition parseCsvFields :: "string \<Rightarrow> string list list" where
  "parseCsvFields text = map splitRow (parseCsvLines False [] (stripBom text))"

definition portfolioFields :: "string \<Rightarrow> string list list" where
  "portfolioFields text = map splitRow (splitCsvLines False [] text)"

text \<open>
  The escaping convention, as the specification words it: the field is wrapped in
  double quotes and every double quote in it is doubled.
\<close>

definition escapeQuotes :: "string \<Rightarrow> string" where
  "escapeQuotes f = concat (map (\<lambda>c. if c = CHR 0x22 then [CHR 0x22, CHR 0x22] else [c]) f)"

definition encodeField :: "string \<Rightarrow> string" where
  "encodeField f = [CHR 0x22] @ escapeQuotes f @ [CHR 0x22]"

definition sampleField :: string where
  "sampleField = ''a,b'' @ [CHR 0x0A, CHR 0x22] @ ''c''"


text \<open>A character that no white-space sequence contains survives trimming.\<close>

lemma dropWs_keeps:
  "c \<in> set s \<Longrightarrow> \<forall>w \<in> set seqs. c \<notin> set w \<Longrightarrow> c \<in> set (dropWs seqs s)"
proof (induction seqs s rule: dropWs.induct)
  case (1 seqs s)
  show ?case
  proof (cases "wsLen seqs s = 0")
    case True
    with "1.prems" show ?thesis by (simp add: dropWs.simps)
  next
    case False
    then obtain w where w: "find (\<lambda>w. prefix w s) seqs = Some w" "wsLen seqs s = length w"
      by (auto simp: wsLen_def split: option.splits)
    then have "w \<in> set seqs" "prefix w s"
      by (auto simp: find_Some_iff)
    then obtain r where r: "s = w @ r" by (auto simp: prefix_def)
    with "1.prems" \<open>w \<in> set seqs\<close> have "c \<in> set r" by auto
    with r w have "c \<in> set (drop (wsLen seqs s) s)" by simp
    from "1.IH" [OF False this "1.prems"(2)] False show ?thesis
      by (simp add: dropWs.simps [of seqs s])
  qed
qed

lemma trim_quote_nonempty:
  assumes "CHR 0x22 \<in> set s"
  shows "trim s \<noteq> []"
proof -
  have "CHR 0x22 \<in> set (trimStart s)"
    unfolding trimStart_def using assms by (rule dropWs_keeps) (simp add: wsSeqs_def)
  then have "CHR 0x22 \<in> set (rev (trimStart s))" by simp
  then have "CHR 0x22 \<in> set (dropWs (map rev wsSeqs) (rev (trimStart s)))"
    by (rule dropWs_keeps) (simp add: wsSeqs_def)
  then show ?thesis by (auto simp: trim_def trimEnd_def)
qed

lemma splitCsvLines_quoted:
  "splitCsvLines True cur (escapeQuotes f @ [CHR 0x22]) = [cur @ escapeQuotes f @ [CHR 0x22]]"
proof (induction f arbitrary: cur)
  case Nil
  show ?case by (simp add: escapeQuotes_def trim_quote_nonempty)
next
  case (Cons c f)
  show ?case
  proof (cases "c = CHR 0x22")
    case True
    have "escapeQuotes (c # f) = CHR 0x22 # CHR 0x22 # escapeQuotes f"
      using True by (simp add: escapeQuotes_def)
    then show ?thesis using Cons.IH [of "cur @ [CHR 0x22, CHR 0x22]"] by simp
  next
    case False
    have "escapeQuotes (c # f) = c # escapeQuotes f"
      using False by (simp add: escapeQuotes_def)
    then show ?thesis using False Cons.IH [of "cur @ [c]"] by simp
  qed
qed

lemma splitRowFrom_quoted:
  "splitRowFrom True fld (escapeQuotes f @ [CHR 0x22]) = [fld @ f]"
proof (induction f arbitrary: fld)
  case Nil
  show ?case by (simp add: escapeQuotes_def)
next
  case (Cons c f)
  show ?case
  proof (cases "c = CHR 0x22")
    case True
    have "escapeQuotes (c # f) = CHR 0x22 # CHR 0x22 # escapeQuotes f"
      using True by (simp add: escapeQuotes_def)
    then show ?thesis using True Cons.IH [of "fld @ [CHR 0x22]"] by simp
  next
    case False
    have "escapeQuotes (c # f) = c # escapeQuotes f"
      using False by (simp add: escapeQuotes_def)
    then show ?thesis using False Cons.IH [of "fld @ [c]"] by simp
  qed
qed

lemma portfolio_roundtrip: "portfolioFields (encodeField f) = [[f]]"
proof -
  obtain c2 rest' where r: "escapeQuotes f @ [CHR 0x22] = c2 # rest'"
    by (cases "escapeQuotes f @ [CHR 0x22]") auto
  have "splitCsvLines False [] (encodeField f) = splitCsvLines True [CHR 0x22] (escapeQuotes f @ [CHR 0x22])"
    by (simp add: encodeField_def r)
  then have l: "splitCsvLines False [] (encodeField f) = [encodeField f]"
    by (simp add: splitCsvLines_quoted encodeField_def)
  have "splitRowFrom False [] (encodeField f) = splitRowFrom True [] (escapeQuotes f @ [CHR 0x22])"
    by (simp add: encodeField_def r)
  then have "splitRow (encodeField f) = [f]"
    by (simp add: splitRow_def splitRowFrom_quoted)
  with l show ?thesis by (simp add: portfolioFields_def)
qed

text \<open>
  Claim C4. A field with a comma, a line feed and a quote, encoded by the escaping
  convention, comes back unchanged from the tokenizer of portfolio.js
  (\<open>portfolio_roundtrip\<close>, for every field). It does not come back from the tokenizer
  of \<open>parseCsv\<close>: its line loop drops the quotes, so \<open>splitRow\<close> splits the line at the
  comma that was quoted and takes the quote that was escaped for an opening quote.
\<close>

theorem parseCsv_roundtrip_fails:
  "parseCsvFields (encodeField sampleField) = [[''a'', ''b'' @ [CHR 0x0A] @ ''c'']]
   \<and> parseCsvFields (encodeField sampleField) \<noteq> [[sampleField]]
   \<and> portfolioFields (encodeField sampleField) = [[sampleField]]"
proof -
  have "parseCsvFields (encodeField sampleField) = [[''a'', ''b'' @ [CHR 0x0A] @ ''c'']]"
    by code_simp
  then show ?thesis by (simp add: portfolio_roundtrip sampleField_def)
qed

section \<open>The record builder of parseCsv (sheets.js)\<close>

text \<open>The decimal numeral of a natural number, as \<open>String\<close> prints a counter.\<close>

definition digitChar :: "nat \<Rightarrow> char" where
  "digitChar n = ''0123456789'' ! n"

fun showNat :: "nat \<Rightarrow> string" where
  "showNat n = (if n < 10 then [digitChar n] else showNat (n div 10) @ [digitChar (n mod 10)])"

declare showNat.simps [simp del]

text \<open>
  A value of \<open>headerCounts\<close>: a counter, or the NaN that \<open>++\<close> leaves when it is applied
  to a function inherited from \<open>Object.prototype\<close>.
\<close>

datatype hcount = CountNaN | Count nat

text \<open>
  The \<open>headers.map\<close> callback of \<open>parseCsv\<close>, with \<open>headerCounts\<close> (the object's own
  properties) as state. \<open>headerCounts\<close> is a plain object, so for a key it does not own,
  \<open>headerCounts[key]\<close> is what \<open>Object.prototype\<close> has under that name: a function, which
  is truthy, \<open>++\<close> makes NaN of it and stores it as an own property; or, for
  \<open>__proto__\<close>, the prototype object itself, which the assignment leaves unchanged and
  the template prints as \<open>[object Object]\<close>. A stored NaN is falsy.
\<close>

fun uniqueHeadersFrom :: "(string \<rightharpoonup> hcount) \<Rightarrow> string list \<Rightarrow> string list" where
  "uniqueHeadersFrom headerCounts [] = []"
| "uniqueHeadersFrom headerCounts (h # hs) =
     (let key = trim h in
      case headerCounts key of
        None \<Rightarrow>
          if key = ''__proto__''
          then (key @ ''_[object Object]'') # uniqueHeadersFrom headerCounts hs
          else if key \<in> set objectProto
          then (key @ ''_NaN'') # uniqueHeadersFrom (headerCounts(key \<mapsto> CountNaN)) hs
          else key # uniqueHeadersFrom (headerCounts(key \<mapsto> Count 1)) hs
      | Some CountNaN \<Rightarrow> key # uniqueHeadersFrom (headerCounts(key \<mapsto> Count 1)) hs
      | Some (Count n) \<Rightarrow>
          if n = 0 then key # uniqueHeadersFrom (headerCounts(key \<mapsto> Count 1)) hs
          else (key @ ''_'' @ showNat (n + 1))
                 # uniqueHeadersFrom (headerCounts(key \<mapsto> Count (n + 1))) hs)"

definition uniqueHeaders :: "string list \<Rightarrow> string list" where
  "uniqueHeaders headers = uniqueHeadersFrom Map.empty headers"

text \<open>
  The regular expressions of the cell typing, as matchers that return every possible
  rest of the input (the empty list when there is no match), so that sequencing them
  explores the alternatives that backtracking would.
\<close>

definition reDigits :: "nat \<Rightarrow> string \<Rightarrow> string list" where
  "reDigits n s = (if n \<le> length s \<and> list_all isDigit (take n s) then [drop n s] else [])"

text \<open>\<open>\d{1,2}\<close>: two digits first, then one.\<close>

definition reDigits12 :: "string \<Rightarrow> string list" where
  "reDigits12 s = reDigits 2 s @ reDigits 1 s"

definition reChar :: "char \<Rightarrow> string \<Rightarrow> string list" where
  "reChar c s = (case s of [] \<Rightarrow> [] | x # r \<Rightarrow> if x = c then [r] else [])"

text \<open>\<open>/^\d{4}-\d{1,2}-\d{1,2}/\<close>\<close>

definition reYMD :: "string \<Rightarrow> bool" where
  "reYMD s =
     (List.bind (reDigits 4 s) (\<lambda>r. List.bind (reChar CHR ''-'' r) (\<lambda>r.
        List.bind (reDigits12 r) (\<lambda>r. List.bind (reChar CHR ''-'' r) reDigits12))) \<noteq> [])"

text \<open>\<open>/^\d{1,2}\/\d{1,2}\/\d{4}/\<close>\<close>

definition reMDY4 :: "string \<Rightarrow> bool" where
  "reMDY4 s =
     (List.bind (reDigits12 s) (\<lambda>r. List.bind (reChar CHR ''/'' r) (\<lambda>r.
        List.bind (reDigits12 r) (\<lambda>r. List.bind (reChar CHR ''/'' r) (reDigits 4)))) \<noteq> [])"

text \<open>\<open>/^\d{5}$/\<close>\<close>

definition reFiveDigits :: "string \<Rightarrow> bool" where
  "reFiveDigits s = (length s = 5 \<and> list_all isDigit s)"

definition lowerAscii :: "char \<Rightarrow> char" where
  "lowerAscii c = (if c \<in> set ''ABCDEFGHIJKLMNOPQRSTUVWXYZ'' then char_of (of_char c + 32 :: nat) else c)"

text \<open>\<open>/date/i\<close>: the four letters, in either case, anywhere in the string.\<close>

definition reDateI :: "string \<Rightarrow> bool" where
  "reDateI h = list_ex (\<lambda>s. map lowerAscii (take 4 s) = ''date'') (suffixes h)"

text \<open>
  \<open>Number\<close> of a string: the string is trimmed; the empty string is 0; a literal with
  the prefix \<open>0x\<close>, \<open>0o\<close> or \<open>0b\<close> is read in its base; otherwise the whole string must be
  a signed decimal literal or a signed \<open>Infinity\<close>, and anything else is NaN.
\<close>

definition hexVal :: "char \<Rightarrow> int option" where
  "hexVal c =
     (if isDigit c then Some (digitVal c)
      else if c \<in> set ''abcdef'' then Some (of_char c - 87)
      else if c \<in> set ''ABCDEF'' then Some (of_char c - 55)
      else None)"

definition radixVal :: "int \<Rightarrow> string \<Rightarrow> num" where
  "radixVal b ds =
     (if ds \<noteq> [] \<and> list_all (\<lambda>c. case hexVal c of None \<Rightarrow> False | Some d \<Rightarrow> d < b) ds
      then Fin (real_of_int (foldl (\<lambda>a c. b * a + the (hexVal c)) 0 ds))
      else NaN)"

definition toNumberStr :: "string \<Rightarrow> num" where
  "toNumberStr s =
     (let t = trim s in
      if t = [] then Fin 0
      else if prefix ''0x'' t \<or> prefix ''0X'' t then radixVal 16 (drop 2 t)
      else if prefix ''0o'' t \<or> prefix ''0O'' t then radixVal 8 (drop 2 t)
      else if prefix ''0b'' t \<or> prefix ''0B'' t then radixVal 2 (drop 2 t)
      else (let sg = scanSign t; neg = fst sg; u = snd sg
            in if u = ''Infinity'' then (if neg then NegInf else PosInf)
               else (case scanDecimal u of
                       Some (v, []) \<Rightarrow> Fin (if neg then - v else v)
                     | _ \<Rightarrow> NaN)))"

text \<open>
  The value \<open>parseCsv\<close> stores for the cell \<open>values[idx]\<close> (\<open>None\<close> when the row is
  shorter than the header) under the unique header \<open>h\<close>.
\<close>

definition cellValue :: "string \<Rightarrow> string option \<Rightarrow> jsval" where
  "cellValue h cell =
     (let v = (case cell of None \<Rightarrow> [] | Some s \<Rightarrow> s);
          trimmed = trim v
      in if trimmed = [] then JNull
         else if reYMD trimmed \<or> reMDY4 trimmed then JStr trimmed
         else if reFiveDigits trimmed \<and> reDateI h then JStr trimmed
         else (let n = toNumberStr trimmed in if \<not> isNaN n then JNum n else JStr trimmed))"

fun isFinite :: "num \<Rightarrow> bool" where
  "isFinite (Fin a) = True"
| "isFinite _ = False"

text \<open>The name the claim gives to the \<open>n\<close>-th occurrence of a header name.\<close>

definition dedupName :: "string \<Rightarrow> nat \<Rightarrow> string" where
  "dedupName k n = (if n = 1 then k else k @ ''_'' @ showNat n)"

lemma length_uniqueHeadersFrom: "length (uniqueHeadersFrom hc hs) = length hs"
  by (induction hs arbitrary: hc) (auto simp: Let_def split: option.splits hcount.splits)

lemma proto_in: "''__proto__'' \<in> set objectProto"
  by (simp add: objectProto_def)

lemma uniqueHeadersFrom_nth:
  assumes "\<forall>k. hc k = (if c k = 0 then None else Some (Count (c k)))"
    and "\<forall>h \<in> set hs. trim h \<notin> set objectProto"
    and "i < length hs"
  shows "uniqueHeadersFrom hc hs ! i =
           dedupName (trim (hs ! i)) (c (trim (hs ! i)) + count_list (map trim (take (Suc i) hs)) (trim (hs ! i)))"
  using assms
proof (induction hs arbitrary: hc c i)
  case Nil
  then show ?case by simp
next
  case (Cons h hs)
  define key where "key = trim h"
  define c' where "c' = c(key := Suc (c key))"
  define hc' where "hc' = hc(key \<mapsto> Count (Suc (c key)))"
  have np: "key \<notin> set objectProto" "key \<noteq> ''__proto__''"
    using Cons.prems(2) proto_in by (auto simp: key_def)
  have inv': "\<forall>k. hc' k = (if c' k = 0 then None else Some (Count (c' k)))"
    using Cons.prems(1) by (simp add: hc'_def c'_def)
  have step: "uniqueHeadersFrom hc (h # hs) = dedupName key (Suc (c key)) # uniqueHeadersFrom hc' hs"
  proof (cases "c key = 0")
    case True
    then have "hc key = None" using Cons.prems(1) by simp
    then show ?thesis
      using np True by (simp add: key_def [symmetric] hc'_def dedupName_def)
  next
    case False
    then have "hc key = Some (Count (c key))" using Cons.prems(1) by simp
    then show ?thesis
      using False by (simp add: key_def [symmetric] hc'_def dedupName_def)
  qed
  show ?case
  proof (cases i)
    case 0
    then show ?thesis by (simp del: uniqueHeadersFrom.simps add: step key_def)
  next
    case (Suc j)
    then have j: "j < length hs" using Cons.prems(3) by simp
    have rest: "\<forall>h \<in> set hs. trim h \<notin> set objectProto" using Cons.prems(2) by simp
    have "uniqueHeadersFrom hc' hs ! j =
        dedupName (trim (hs ! j)) (c' (trim (hs ! j)) + count_list (map trim (take (Suc j) hs)) (trim (hs ! j)))"
      by (rule Cons.IH [OF inv' rest j])
    moreover have "c' (trim (hs ! j)) + count_list (map trim (take (Suc j) hs)) (trim (hs ! j))
        = c (trim (hs ! j)) + count_list (map trim (take (Suc (Suc j)) (h # hs))) (trim (hs ! j))"
      by (simp add: c'_def key_def)
    ultimately show ?thesis using Suc by (simp del: uniqueHeadersFrom.simps add: step)
  qed
qed

lemma uniqueHeaders_ordinary:
  assumes "\<forall>h \<in> set hs. trim h \<notin> set objectProto" "i < length hs"
  shows "uniqueHeaders hs ! i =
           dedupName (trim (hs ! i)) (count_list (map trim (take (Suc i) hs)) (trim (hs ! i)))"
  using uniqueHeadersFrom_nth [of Map.empty "\<lambda>_. 0" hs i] assms
  by (simp add: uniqueHeaders_def)

lemma uniqueHeaders_example:
  "uniqueHeaders [''A'', ''B'', ''A'', ''A''] = [''A'', ''B'', ''A_2'', ''A_3'']"
  by code_simp

text \<open>
  Claim C7. The example of the claim holds (\<open>uniqueHeaders_example\<close>), and so does the
  rule for every header row in which no trimmed name is the name of a member of
  \<open>Object.prototype\<close> (\<open>uniqueHeaders_ordinary\<close>: the \<open>n\<close>-th occurrence of a name is
  the name itself for \<open>n = 1\<close> and the name with \<open>_n\<close> after it otherwise). For a
  header called \<open>constructor\<close> the rule fails: \<open>headerCounts\<close> is a plain object, its
  inherited \<open>constructor\<close> is truthy, and the first occurrence is renamed
  \<open>constructor_NaN\<close>, the second keeps the name, the third gets \<open>_2\<close>.
\<close>

theorem uniqueHeaders_inherited_name:
  "uniqueHeaders [''constructor''] = [''constructor_NaN'']
   \<and> uniqueHeaders [''constructor'', ''constructor'', ''constructor'']
       = [''constructor_NaN'', ''constructor'', ''constructor_2'']"
  by code_simp

text \<open>
  Claim C8, as stated: a cell that is neither empty nor date-like would be stored as a
  number exactly when \<open>Number\<close> yields a finite number. The cell \<open>Infinity\<close> is stored
  as the number Infinity, which is not finite: the code tests \<open>!isNaN(num)\<close>.
\<close>

theorem cellValue_infinity_counterexample:
  "\<not> ((\<exists>n. cellValue ''Price'' (Some ''Infinity'') = JNum n)
        \<longleftrightarrow> isFinite (toNumberStr (trim ''Infinity'')))"
proof -
  have t: "trim ''Infinity'' = ''Infinity''" by code_simp
  have n: "toNumberStr ''Infinity'' = PosInf" by code_simp
  have "cellValue ''Price'' (Some ''Infinity'') = JNum PosInf" by code_simp
  with t n show ?thesis by simp
qed

text \<open>
  Claim C8, amended: a missing, empty or white-space-only cell becomes \<open>null\<close>; a
  cell whose trimmed text matches a date pattern, or is five digits under a header
  containing \<open>date\<close> in any case, is kept as the trimmed string; every other cell is
  stored as a number exactly when \<open>Number\<close> of the trimmed text is not NaN (the number
  may be infinite), and as the trimmed string otherwise.
\<close>

theorem cellValue_typing:
  "cellValue h None = JNull
   \<and> (trim c = [] \<longrightarrow> cellValue h (Some c) = JNull)
   \<and> (trim c \<noteq> [] \<and> (reYMD (trim c) \<or> reMDY4 (trim c) \<or> (reFiveDigits (trim c) \<and> reDateI h))
        \<longrightarrow> cellValue h (Some c) = JStr (trim c))
   \<and> (trim c \<noteq> [] \<and> \<not> (reYMD (trim c) \<or> reMDY4 (trim c) \<or> (reFiveDigits (trim c) \<and> reDateI h))
        \<longrightarrow> ((\<exists>n. cellValue h (Some c) = JNum n) \<longleftrightarrow> \<not> isNaN (toNumberStr (trim c)))
          \<and> (\<not> isNaN (toNumberStr (trim c)) \<longrightarrow> cellValue h (Some c) = JNum (toNumberStr (trim c)))
          \<and> (isNaN (toNumberStr (trim c)) \<longrightarrow> cellValue h (Some c) = JStr (trim c)))"
proof -
  have "trim [] = []" by code_simp
  then show ?thesis by (auto simp: cellValue_def Let_def)
qed

theorem cellValue_typing_witness:
  "cellValue ''Close'' None = JNull
   \<and> cellValue ''Close'' (Some ''   '') = JNull
   \<and> cellValue ''Trade Date'' (Some '' 46067 '') = JStr ''46067''
   \<and> cellValue ''Close'' (Some '' 2024-3-7 '') = JStr ''2024-3-7''
   \<and> cellValue ''Close'' (Some '' 46067 '') = JNum (Fin 46067)
   \<and> cellValue ''Close'' (Some '' n/a '') = JStr ''n/a''"
proof -
  have a: "trim ''   '' = []" by code_simp
  have b: "trim '' 46067 '' = ''46067''" "reFiveDigits ''46067''" "reDateI ''Trade Date''"
    "\<not> reYMD ''46067''" "\<not> reMDY4 ''46067''" "\<not> reDateI ''Close''"
    "toNumberStr ''46067'' = Fin 46067"
    by code_simp+
  have c: "trim '' 2024-3-7 '' = ''2024-3-7''" "reYMD ''2024-3-7''" by code_simp+
  have d: "trim '' n/a '' = ''n/a''" "\<not> reYMD ''n/a''" "\<not> reMDY4 ''n/a''" "\<not> reFiveDigits ''n/a''"
    "toNumberStr ''n/a'' = NaN"
    by code_simp+
  from cellValue_typing [of "''Close''" "''   ''"] cellValue_typing [of "''Trade Date''" "'' 46067 ''"]
    cellValue_typing [of "''Close''" "'' 2024-3-7 ''"] cellValue_typing [of "''Close''" "'' 46067 ''"]
    cellValue_typing [of "''Close''" "'' n/a ''"] a b c d
  show ?thesis by (simp add: isNaN_def)
qed

section \<open>The screener (screener.js)\<close>

text \<open>
  \<open>String(v)\<close>. What \<open>String\<close> prints for a number or an object is left to the
  parameter \<open>toStr\<close>: the model has no decimal printing of reals, and nothing proved
  below depends on it.
\<close>

definition jsString :: "(jsval \<Rightarrow> string) \<Rightarrow> jsval \<Rightarrow> string" where
  "jsString toStr v =
     (case v of JStr s \<Rightarrow> s | JNull \<Rightarrow> ''null'' | JUndefined \<Rightarrow> ''undefined'' | _ \<Rightarrow> toStr v)"

text \<open>
  The regular expression of \<open>stripFormula\<close>,
  \<open>/=HYPERLINK\(".*?","(.+?)"\)/i\<close>. A dot matches anything but a line terminator
  (LF, CR, U+2028, U+2029); both quantifiers are lazy.
\<close>

definition lineTermAhead :: "string \<Rightarrow> bool" where
  "lineTermAhead s =
     (prefix [CHR 0x0A] s \<or> prefix [CHR 0x0D] s
      \<or> prefix [CHR 0xE2, CHR 0x80, CHR 0xA8] s \<or> prefix [CHR 0xE2, CHR 0x80, CHR 0xA9] s)"

text \<open>\<open>(.+?)"\)\<close>: \<open>acc\<close> is the group matched so far; the shortest group wins.\<close>

fun lazyGroup :: "string \<Rightarrow> string \<Rightarrow> string option" where
  "lazyGroup acc [] = None"
| "lazyGroup acc (c # r) =
     (if acc \<noteq> [] \<and> prefix [CHR 0x22, CHR '')''] (c # r) then Some acc
      else if lineTermAhead (c # r) then None
      else lazyGroup (acc @ [c]) r)"

text \<open>\<open>.*?","(.+?)"\)\<close>: the shortest skip after which the rest matches.\<close>

fun lazySkip :: "string \<Rightarrow> string option" where
  "lazySkip [] = None"
| "lazySkip (c # r) =
     (case (if prefix [CHR 0x22, CHR '','', CHR 0x22] (c # r) then lazyGroup [] (drop 2 r) else None) of
        Some g \<Rightarrow> Some g
      | None \<Rightarrow> if lineTermAhead (c # r) then None else lazySkip r)"

definition hyperlinkAt :: "string \<Rightarrow> string option" where
  "hyperlinkAt s =
     (if map lowerAscii (take 12 s) = ''=hyperlink('' @ [CHR 0x22] then lazySkip (drop 12 s) else None)"

text \<open>The leftmost match.\<close>

fun hyperlinkSearch :: "string \<Rightarrow> string option" where
  "hyperlinkSearch [] = None"
| "hyperlinkSearch (c # r) =
     (case hyperlinkAt (c # r) of Some g \<Rightarrow> Some g | None \<Rightarrow> hyperlinkSearch r)"

definition stripFormula :: "(jsval \<Rightarrow> string) \<Rightarrow> jsval \<Rightarrow> string" where
  "stripFormula toStr v =
     (if looseNull v then []
      else (let s = jsString toStr v
            in case hyperlinkSearch s of Some g \<Rightarrow> g | None \<Rightarrow> s))"

text \<open>\<open>getEntry\<close>: each metric under the first of its aliases that is not nullish.\<close>

definition coalesce :: "jsval \<Rightarrow> jsval \<Rightarrow> jsval" where
  "coalesce a b = (if looseNull a then b else a)"

definition col_R21E :: string where "col_R21E = ''R'' @ [CHR 0xC3, CHR 0x97] @ ''21E''"
definition col_R50S :: string where "col_R50S = ''R'' @ [CHR 0xC3, CHR 0x97] @ ''50S''"
definition col_kijun :: string where
  "col_kijun = [CHR 0xE5, CHR 0x9F, CHR 0xBA, CHR 0xE6, CHR 0xBA, CHR 0x96]"

record entry =
  adr :: num
  atr21e :: num
  e21p :: num
  atr50s :: num

definition getEntry :: "row \<Rightarrow> entry" where
  "getEntry r =
     \<lparr> adr = parseFloat (coalesce (coalesce (getProp r ''ADR%'') (getProp r ''ADR%(20D)'')) (getProp r ''ADR'')),
       atr21e = parseFloat (coalesce (coalesce (getProp r col_R21E) (getProp r ''ATR_21EMA'')) (getProp r ''ATR21E_R'')),
       e21p = parseFloat (coalesce (getProp r ''E21L%'') (getProp r ''Dist_21EMA%'')),
       atr50s = parseFloat (coalesce (coalesce (getProp r col_R50S) (getProp r ''ATR_50SMA'')) (getProp r ''ATR50S_R'')) \<rparr>"

definition adr_ok :: "num \<Rightarrow> bool" where
  "adr_ok v = (num_ge v (Fin 2.5) \<and> num_le v (Fin 7))"
definition r21_ok :: "num \<Rightarrow> bool" where
  "r21_ok v = (num_ge v (Fin (- 0.3)) \<and> num_le v (Fin 0.8))"
definition e21_ok :: "num \<Rightarrow> bool" where
  "e21_ok v = num_le v (Fin 4)"
definition r50_ok :: "num \<Rightarrow> bool" where
  "r50_ok v = num_le v (Fin 2.5)"

definition entryScore :: "row \<Rightarrow> nat" where
  "entryScore r =
     (let e = getEntry r
      in (if \<not> isNaN (adr e) \<and> adr_ok (adr e) then 1 else 0)
         + (if \<not> isNaN (atr21e e) \<and> r21_ok (atr21e e) then 1 else 0)
         + (if \<not> isNaN (e21p e) \<and> e21_ok (e21p e) then 1 else 0)
         + (if \<not> isNaN (atr50s e) \<and> r50_ok (atr50s e) then 1 else 0))"

text \<open>
  The deduplicated list of the ALL tab, built in \<open>renderScreenTable\<close>. The state is
  \<open>seen\<close> (ticker to index, a plain object) and \<open>data\<close>.  When the ticker was seen, the
  row's own keys are visited in order and a key is copied when the accumulated record
  has nothing under it (\<open>null\<close>, \<open>undefined\<close> or the empty string) and the row has
  something.
\<close>

datatype jserror = TypeError

definition isEmptyVal :: "jsval \<Rightarrow> bool" where
  "isEmptyVal v = (looseNull v \<or> v = JStr [])"

definition mergeKey :: "row \<Rightarrow> row \<Rightarrow> string \<Rightarrow> row" where
  "mergeKey r existing key =
     (if isEmptyVal (getProp existing key) \<and> \<not> isEmptyVal (getProp r key)
      then AList.update key (getProp r key) existing else existing)"

definition mergeRow :: "row \<Rightarrow> row \<Rightarrow> row" where
  "mergeRow existing r = foldl (mergeKey r) existing (map fst r)"

text \<open>
  One row of one screen. A ticker that \<open>seen\<close> does not own but \<open>Object.prototype\<close>
  has a member for passes the test \<open>seen[ticker] !== undefined\<close>; \<open>data[seen[ticker]]\<close>
  is then \<open>undefined\<close>, and reading a key of it throws.
\<close>

definition allStep ::
  "(jsval \<Rightarrow> string) \<Rightarrow> string \<Rightarrow> (string \<rightharpoonup> nat) \<times> row list \<Rightarrow> row
     \<Rightarrow> jserror + ((string \<rightharpoonup> nat) \<times> row list)" where
  "allStep toStr screenKey st r =
     (let seen = fst st; data = snd st;
          ticker = stripFormula toStr (getProp r ''Ticker'')
      in if ticker = [] then Inr st
         else (case seen ticker of
                 Some i \<Rightarrow> Inr (seen, data[i := mergeRow (data ! i) r])
               | None \<Rightarrow>
                   if ticker \<in> set objectProto then Inl TypeError
                   else Inr (seen(ticker \<mapsto> length data),
                             data @ [AList.update ''_screenKey'' (JStr screenKey) r])))"

fun foldE :: "('s \<Rightarrow> 'a \<Rightarrow> jserror + 's) \<Rightarrow> 's \<Rightarrow> 'a list \<Rightarrow> jserror + 's" where
  "foldE f s [] = Inr s"
| "foldE f s (x # xs) = (case f s x of Inl e \<Rightarrow> Inl e | Inr s' \<Rightarrow> foldE f s' xs)"

text \<open>\<open>screenData\<close> is given as \<open>Object.entries\<close> lists it: screen key and rows.\<close>

definition allData :: "(jsval \<Rightarrow> string) \<Rightarrow> (string \<times> row list) list \<Rightarrow> jserror + row list" where
  "allData toStr screenData =
     (case foldE (\<lambda>st (screenKey, rows). foldE (allStep toStr screenKey) st rows)
             (Map.empty, []) screenData of
        Inl e \<Rightarrow> Inl e
      | Inr st \<Rightarrow> Inr (snd st))"

text \<open>
  The header sort of \<open>renderScreenTable\<close>. \<open>tickerMap\<close> is the overlap count of each
  ticker (the global that \<open>buildTickerMap\<close> fills), \<open>localeCompare\<close> the collation of
  the host, used by the three text columns only.
\<close>

definition sortValue :: "(jsval \<Rightarrow> string) \<Rightarrow> (string \<rightharpoonup> nat) \<Rightarrow> string \<Rightarrow> row \<Rightarrow> jsval" where
  "sortValue toStr tickerMap col a =
     (if col = ''Ticker'' then JStr (stripFormula toStr (getProp a ''Ticker''))
      else if col = ''Name'' then JStr (stripFormula toStr (getProp a ''Name''))
      else if col = ''Screens''
        then JNum (Fin (case tickerMap (stripFormula toStr (getProp a ''Ticker'')) of
                          None \<Rightarrow> 0 | Some n \<Rightarrow> real n))
      else if col = ''ADR%'' then JNum (adr (getEntry a))
      else if col = col_R21E then JNum (atr21e (getEntry a))
      else if col = ''E21L%'' then JNum (e21p (getEntry a))
      else if col = col_R50S then JNum (atr50s (getEntry a))
      else if col = col_kijun then JNum (Fin (real (entryScore a)))
      else getProp a col)"

definition compareRows ::
  "(string \<Rightarrow> string \<Rightarrow> real) \<Rightarrow> (jsval \<Rightarrow> string) \<Rightarrow> (string \<rightharpoonup> nat) \<Rightarrow> string \<Rightarrow> string
     \<Rightarrow> row \<Rightarrow> row \<Rightarrow> num" where
  "compareRows localeCompare toStr tickerMap col direction a b =
     (let dir = (if direction = ''asc'' then 1 else - 1);
          va = sortValue toStr tickerMap col a;
          vb = sortValue toStr tickerMap col b
      in if col = ''Ticker'' \<or> col = ''Name'' \<or> col = ''Sector''
         then Fin (localeCompare (jsString toStr (if truthy va then va else JStr []))
                                 (jsString toStr (if truthy vb then vb else JStr [])) * dir)
         else (let na = parseFloat va; nb = parseFloat vb
               in if isNaN na \<and> isNaN nb then Fin 0
                  else if isNaN na then Fin 1
                  else if isNaN nb then Fin (- 1)
                  else num_mul (num_sub na nb) (Fin dir)))"

text \<open>
  \<open>Array.prototype.sort\<close> with a comparator, as a stable insertion sort: an element
  moves behind another one only when the comparator says it is greater (a NaN result
  counts as 0). On a consistent comparator every stable sort gives this result.
\<close>

fun insertBy :: "('a \<Rightarrow> 'a \<Rightarrow> num) \<Rightarrow> 'a \<Rightarrow> 'a list \<Rightarrow> 'a list" where
  "insertBy cmp x [] = [x]"
| "insertBy cmp x (y # ys) = (if num_gt (cmp x y) (Fin 0) then y # insertBy cmp x ys else x # y # ys)"

definition sortBy :: "('a \<Rightarrow> 'a \<Rightarrow> num) \<Rightarrow> 'a list \<Rightarrow> 'a list" where
  "sortBy cmp xs = foldr (insertBy cmp) xs []"

definition headerSort ::
  "(string \<Rightarrow> string \<Rightarrow> real) \<Rightarrow> (jsval \<Rightarrow> string) \<Rightarrow> (string \<rightharpoonup> nat) \<Rightarrow> string \<Rightarrow> string
     \<Rightarrow> row list \<Rightarrow> row list" where
  "headerSort localeCompare toStr tickerMap col direction data =
     sortBy (compareRows localeCompare toStr tickerMap col direction) data"

definition sourceA :: "row list" where
  "sourceA = [[(''Ticker'', JStr ''1234''), (''X'', JNull), (''Y'', JNum (Fin 5))]]"

definition sourceB :: "row list" where
  "sourceB = [[(''Ticker'', JStr ''1234''), (''X'', JNum (Fin 9)), (''Y'', JNum (Fin 1))]]"

lemma getProp_update:
  "getProp (AList.update k v e) k' = (if k' = k then v else getProp e k')"
  by (simp add: getProp_def update_conv')

lemma mergeKey_get:
  "getProp (mergeKey r e key) k =
     (if k = key \<and> isEmptyVal (getProp e k) \<and> \<not> isEmptyVal (getProp r k)
      then getProp r k else getProp e k)"
  by (auto simp: mergeKey_def getProp_update)

lemma foldl_mergeKey_get:
  "getProp (foldl (mergeKey r) e ks) k =
     (if isEmptyVal (getProp e k) \<and> k \<in> set ks \<and> \<not> isEmptyVal (getProp r k)
      then getProp r k else getProp e k)"
proof (induction ks arbitrary: e)
  case Nil
  show ?case by simp
next
  case (Cons key ks)
  show ?case
    by (simp add: Cons.IH mergeKey_get)
qed

lemma mergeRow_get:
  "getProp (mergeRow existing r) k =
     (if isEmptyVal (getProp existing k) \<and> k \<in> fst ` set r \<and> \<not> isEmptyVal (getProp r k)
      then getProp r k else getProp existing k)"
  by (simp add: mergeRow_def foldl_mergeKey_get)

text \<open>
  Claim C3. When the ticker of a row was seen before, the row is merged into the
  accumulated record and nothing else changes: under every key the merged record has
  the row's value if the accumulated record had nothing there (\<open>null\<close>, \<open>undefined\<close>
  or the empty string) and the row owns the key with something under it, and the
  accumulated value otherwise, so a value that is there is never overwritten. For the
  ticker 1234 with \<open>X = null, Y = 5\<close> in source A and \<open>X = 9, Y = 1\<close> in source B the
  deduplicated list is the one record with \<open>X = 9\<close> and \<open>Y = 5\<close>.
\<close>

theorem merge_first_source_wins:
  assumes "stripFormula toStr (getProp r ''Ticker'') = ticker" "ticker \<noteq> []"
    and "seen ticker = Some i" "i < length data"
  shows "allStep toStr screenKey (seen, data) r = Inr (seen, data[i := mergeRow (data ! i) r])
       \<and> (\<forall>k. getProp (mergeRow (data ! i) r) k =
                 (if isEmptyVal (getProp (data ! i) k) \<and> k \<in> fst ` set r \<and> \<not> isEmptyVal (getProp r k)
                  then getProp r k else getProp (data ! i) k))
       \<and> (\<forall>j. j < length data \<and> j \<noteq> i \<longrightarrow> data[i := mergeRow (data ! i) r] ! j = data ! j)
       \<and> allData toStr [(''A'', sourceA), (''B'', sourceB)]
           = Inr [[(''Ticker'', JStr ''1234''), (''X'', JNum (Fin 9)), (''Y'', JNum (Fin 5)),
                   (''_screenKey'', JStr ''A'')]]"
proof -
  have step: "allStep toStr screenKey (seen, data) r = Inr (seen, data[i := mergeRow (data ! i) r])"
    using assms by (simp add: allStep_def Let_def)
  have t: "stripFormula toStr (JStr ''1234'') = ''1234''"
    by (simp add: stripFormula_def jsString_def hyperlinkAt_def)
  have ex: "allData toStr [(''A'', sourceA), (''B'', sourceB)]
           = Inr [[(''Ticker'', JStr ''1234''), (''X'', JNum (Fin 9)), (''Y'', JNum (Fin 5)),
                   (''_screenKey'', JStr ''A'')]]"
    by (simp add: allData_def sourceA_def sourceB_def allStep_def Let_def getProp_def t
        objectProto_def mergeRow_def mergeKey_def isEmptyVal_def)
  show ?thesis using step ex by (simp add: mergeRow_get)
qed

theorem merge_first_source_wins_witness:
  "allStep (\<lambda>_. []) ''B'' ([''1234'' \<mapsto> 0], [AList.update ''_screenKey'' (JStr ''A'') (hd sourceA)]) (hd sourceB)
     = Inr ([''1234'' \<mapsto> 0],
            [[(''Ticker'', JStr ''1234''), (''X'', JNum (Fin 9)), (''Y'', JNum (Fin 5)),
              (''_screenKey'', JStr ''A'')]])
   \<and> getProp (mergeRow (AList.update ''_screenKey'' (JStr ''A'') (hd sourceA)) (hd sourceB)) ''X'' = JNum (Fin 9)
   \<and> getProp (mergeRow (AList.update ''_screenKey'' (JStr ''A'') (hd sourceA)) (hd sourceB)) ''Y'' = JNum (Fin 5)"
proof -
  have t: "stripFormula (\<lambda>_. []) (getProp (hd sourceB) ''Ticker'') = ''1234''"
    by (simp add: stripFormula_def jsString_def hyperlinkAt_def sourceB_def getProp_def)
  have m: "mergeRow (AList.update ''_screenKey'' (JStr ''A'') (hd sourceA)) (hd sourceB)
      = [(''Ticker'', JStr ''1234''), (''X'', JNum (Fin 9)), (''Y'', JNum (Fin 5)), (''_screenKey'', JStr ''A'')]"
    by (simp add: sourceA_def sourceB_def mergeRow_def mergeKey_def isEmptyVal_def getProp_def)
  from merge_first_source_wins [OF t, of "[''1234'' \<mapsto> 0]" 0
      "[AList.update ''_screenKey'' (JStr ''A'') (hd sourceA)]" "''B''"] m
  show ?thesis by (simp add: getProp_def)
qed

text \<open>The comparator of a numeric column, on the parsed values.\<close>

definition numericCompare :: "string \<Rightarrow> num \<Rightarrow> num \<Rightarrow> num" where
  "numericCompare direction na nb =
     (if isNaN na \<and> isNaN nb then Fin 0
      else if isNaN na then Fin 1
      else if isNaN nb then Fin (- 1)
      else num_mul (num_sub na nb) (Fin (if direction = ''asc'' then 1 else - 1)))"

definition sortKey :: "(jsval \<Rightarrow> string) \<Rightarrow> (string \<rightharpoonup> nat) \<Rightarrow> string \<Rightarrow> row \<Rightarrow> num" where
  "sortKey toStr tickerMap col a = parseFloat (sortValue toStr tickerMap col a)"

lemma compareRows_numeric:
  assumes "col \<noteq> ''Ticker''" "col \<noteq> ''Name''" "col \<noteq> ''Sector''"
  shows "compareRows lc toStr tm col direction a b
           = numericCompare direction (sortKey toStr tm col a) (sortKey toStr tm col b)"
  using assms by (simp add: compareRows_def numericCompare_def sortKey_def Let_def)

text \<open>When the comparator puts the first value behind the second.\<close>

definition keyAfter :: "string \<Rightarrow> num \<Rightarrow> num \<Rightarrow> bool" where
  "keyAfter direction ka kb =
     (if isNaN ka then \<not> isNaN kb
      else \<not> isNaN kb \<and> (if direction = ''asc'' then num_lt kb ka else num_lt ka kb))"

lemma numericCompare_gt:
  "num_gt (numericCompare direction ka kb) (Fin 0) = keyAfter direction ka kb"
  by (cases ka; cases kb)
     (auto simp: numericCompare_def keyAfter_def isNaN_def num_gt_def num_sub_def infOfSign_def
        mult_less_0_iff zero_less_mult_iff)

lemma keyAfter_asym: "keyAfter d ka kb \<Longrightarrow> \<not> keyAfter d kb ka"
  by (cases ka; cases kb) (auto simp: keyAfter_def isNaN_def split: if_splits)

lemma keyAfter_negtrans:
  "\<not> keyAfter d ka kb \<Longrightarrow> \<not> keyAfter d kb kc \<Longrightarrow> \<not> keyAfter d ka kc"
  by (cases ka; cases kb; cases kc) (auto simp: keyAfter_def isNaN_def split: if_splits)

lemma set_insertBy: "set (insertBy cmp x ys) = insert x (set ys)"
  by (induction ys) auto

lemma mset_insertBy: "mset (insertBy cmp x ys) = add_mset x (mset ys)"
  by (induction ys) auto

lemma mset_sortBy: "mset (sortBy cmp xs) = mset xs"
  unfolding sortBy_def by (induction xs) (simp_all add: mset_insertBy)

lemma sorted_insertBy:
  assumes asym: "\<And>a b. num_gt (cmp a b) (Fin 0) \<Longrightarrow> \<not> num_gt (cmp b a) (Fin 0)"
    and nt: "\<And>a b c. \<not> num_gt (cmp a b) (Fin 0) \<Longrightarrow> \<not> num_gt (cmp b c) (Fin 0)
               \<Longrightarrow> \<not> num_gt (cmp a c) (Fin 0)"
    and "sorted_wrt (\<lambda>a b. \<not> num_gt (cmp a b) (Fin 0)) ys"
  shows "sorted_wrt (\<lambda>a b. \<not> num_gt (cmp a b) (Fin 0)) (insertBy cmp x ys)"
  using assms(3)
proof (induction ys)
  case Nil
  then show ?case by simp
next
  case (Cons y ys)
  show ?case
  proof (cases "num_gt (cmp x y) (Fin 0)")
    case True
    then have "\<not> num_gt (cmp y x) (Fin 0)" by (rule asym)
    with True Cons show ?thesis by (auto simp: set_insertBy)
  next
    case False
    have "\<not> num_gt (cmp x z) (Fin 0)" if "z \<in> set ys" for z
      using nt [OF False] Cons.prems that by auto
    with False Cons.prems show ?thesis by auto
  qed
qed

lemma sorted_sortBy:
  assumes "\<And>a b. num_gt (cmp a b) (Fin 0) \<Longrightarrow> \<not> num_gt (cmp b a) (Fin 0)"
    and "\<And>a b c. \<not> num_gt (cmp a b) (Fin 0) \<Longrightarrow> \<not> num_gt (cmp b c) (Fin 0)
               \<Longrightarrow> \<not> num_gt (cmp a c) (Fin 0)"
  shows "sorted_wrt (\<lambda>a b. \<not> num_gt (cmp a b) (Fin 0)) (sortBy cmp xs)"
  unfolding sortBy_def
  by (induction xs) (simp_all add: sorted_insertBy [OF assms])

lemma headerSort_sorted:
  assumes "col \<noteq> ''Ticker''" "col \<noteq> ''Name''" "col \<noteq> ''Sector''"
  shows "sorted_wrt (\<lambda>a b. \<not> keyAfter direction (sortKey toStr tm col a) (sortKey toStr tm col b))
           (headerSort lc toStr tm col direction data)"
proof -
  let ?cmp = "compareRows lc toStr tm col direction"
  have gt: "num_gt (?cmp a b) (Fin 0) = keyAfter direction (sortKey toStr tm col a) (sortKey toStr tm col b)"
    for a b
    by (simp add: compareRows_numeric [OF assms] numericCompare_gt)
  have "sorted_wrt (\<lambda>a b. \<not> num_gt (?cmp a b) (Fin 0)) (sortBy ?cmp data)"
    by (rule sorted_sortBy) (auto simp: gt dest: keyAfter_asym keyAfter_negtrans)
  then show ?thesis by (simp add: gt headerSort_def)
qed

lemma not_keyAfter_order:
  assumes "\<not> keyAfter direction ka kb"
  shows "(isNaN ka \<longrightarrow> isNaN kb)
       \<and> (\<not> isNaN kb \<longrightarrow> (if direction = ''asc'' then num_le ka kb else num_le kb ka))"
  using assms by (cases ka; cases kb) (auto simp: keyAfter_def isNaN_def split: if_splits)

definition sampleRows :: "row list" where
  "sampleRows = [[(''v'', JNum (Fin 3))], [(''v'', JNull)], [(''v'', JNum (Fin 1))]]"

lemma sample_sorted:
  "headerSort lc toStr tm ''v'' ''asc'' sampleRows
     = [[(''v'', JNum (Fin 1))], [(''v'', JNum (Fin 3))], [(''v'', JNull)]]"
  "headerSort lc toStr tm ''v'' ''desc'' sampleRows
     = [[(''v'', JNum (Fin 3))], [(''v'', JNum (Fin 1))], [(''v'', JNull)]]"
  by (simp_all add: headerSort_def sortBy_def compareRows_def sortValue_def col_R21E_def
      col_R50S_def col_kijun_def getProp_def isNaN_def num_sub_def num_gt_def sampleRows_def)

text \<open>
  Claim C6. For every column but the three text columns the header sort returns a
  permutation of the records in which no record with an unparseable value stands
  before a record with a parseable one, in either direction, and the parseable values
  ascend for \<open>asc\<close> and descend otherwise; the records with the values 3, \<open>null\<close>, 1
  come out as 1, 3, \<open>null\<close> ascending and as 3, 1, \<open>null\<close> descending.
\<close>

theorem headerSort_nan_last:
  assumes "col \<noteq> ''Ticker''" "col \<noteq> ''Name''" "col \<noteq> ''Sector''"
  shows "mset (headerSort lc toStr tm col direction data) = mset data
       \<and> (\<forall>i j. i < j \<and> j < length data \<longrightarrow>
             (isNaN (sortKey toStr tm col (headerSort lc toStr tm col direction data ! i))
                \<longrightarrow> isNaN (sortKey toStr tm col (headerSort lc toStr tm col direction data ! j)))
           \<and> (\<not> isNaN (sortKey toStr tm col (headerSort lc toStr tm col direction data ! j))
                \<longrightarrow> (if direction = ''asc''
                     then num_le (sortKey toStr tm col (headerSort lc toStr tm col direction data ! i))
                                 (sortKey toStr tm col (headerSort lc toStr tm col direction data ! j))
                     else num_le (sortKey toStr tm col (headerSort lc toStr tm col direction data ! j))
                                 (sortKey toStr tm col (headerSort lc toStr tm col direction data ! i)))))
       \<and> headerSort lc toStr tm ''v'' ''asc'' sampleRows
           = [[(''v'', JNum (Fin 1))], [(''v'', JNum (Fin 3))], [(''v'', JNull)]]
       \<and> headerSort lc toStr tm ''v'' ''desc'' sampleRows
           = [[(''v'', JNum (Fin 3))], [(''v'', JNum (Fin 1))], [(''v'', JNull)]]"
proof -
  let ?out = "headerSort lc toStr tm col direction data"
  have m: "mset ?out = mset data" by (simp add: headerSort_def mset_sortBy)
  then have len: "length ?out = length data" by (metis size_mset)
  have "\<not> keyAfter direction (sortKey toStr tm col (?out ! i)) (sortKey toStr tm col (?out ! j))"
    if "i < j" "j < length data" for i j
    using headerSort_sorted [OF assms, of direction toStr tm lc data] that len
    by (simp add: sorted_wrt_iff_nth_less)
  then have "(isNaN (sortKey toStr tm col (?out ! i)) \<longrightarrow> isNaN (sortKey toStr tm col (?out ! j)))
       \<and> (\<not> isNaN (sortKey toStr tm col (?out ! j))
            \<longrightarrow> (if direction = ''asc''
                 then num_le (sortKey toStr tm col (?out ! i)) (sortKey toStr tm col (?out ! j))
                 else num_le (sortKey toStr tm col (?out ! j)) (sortKey toStr tm col (?out ! i))))"
    if "i < j" "j < length data" for i j
    using that by (intro not_keyAfter_order) blast
  with m sample_sorted [of lc toStr tm] show ?thesis by blast
qed

theorem headerSort_nan_last_witness:
  "headerSort (\<lambda>_ _. 0) (\<lambda>_. []) Map.empty ''v'' ''asc'' sampleRows
     = [[(''v'', JNum (Fin 1))], [(''v'', JNum (Fin 3))], [(''v'', JNull)]]
   \<and> headerSort (\<lambda>_ _. 0) (\<lambda>_. []) Map.empty ''v'' ''desc'' sampleRows
     = [[(''v'', JNum (Fin 3))], [(''v'', JNum (Fin 1))], [(''v'', JNull)]]
   \<and> mset (headerSort (\<lambda>_ _. 0) (\<lambda>_. []) Map.empty ''v'' ''desc'' sampleRows) = mset sampleRows
   \<and> map (sortKey (\<lambda>_. []) Map.empty ''v'') sampleRows = [Fin 3, NaN, Fin 1]"
proof -
  have k: "map (sortKey (\<lambda>_. []) Map.empty ''v'') sampleRows = [Fin 3, NaN, Fin 1]"
    by (simp add: sortKey_def sortValue_def col_R21E_def col_R50S_def col_kijun_def getProp_def
        sampleRows_def)
  have ne: "''v'' \<noteq> ''Ticker''" "''v'' \<noteq> ''Name''" "''v'' \<noteq> ''Sector''"
    by simp_all
  from headerSort_nan_last [OF ne, of "\<lambda>_ _. 0" "\<lambda>_. []" Map.empty "''desc''" sampleRows] k
  show ?thesis by blast
qed

section \<open>The date label (market.js)\<close>

text \<open>
  \<open>parseInt\<close> of a string without a radix: leading white space, an optional sign,
  hexadecimal digits after \<open>0x\<close>, decimal digits otherwise; \<open>None\<close> is NaN.
\<close>

definition parseIntStr :: "string \<Rightarrow> int option" where
  "parseIntStr s =
     (let sg = scanSign (trimStart s); neg = fst sg; u = snd sg;
          hex = (prefix ''0x'' u \<or> prefix ''0X'' u);
          ds = (if hex then takeWhile (\<lambda>c. hexVal c \<noteq> None) (drop 2 u) else takeWhile isDigit u);
          v = (if hex then foldl (\<lambda>a c. 16 * a + the (hexVal c)) 0 ds else digitsVal ds)
      in if ds = [] then None else Some (if neg then - v else v))"

text \<open>
  How a template literal prints an integer: decimal digits (what the language prints
  for integers below \<open>10\<^sup>2\<^sup>1\<close>; the rounding of integers above \<open>2\<^sup>5\<^sup>3\<close> is not modelled).
\<close>

definition showNum :: "int option \<Rightarrow> string" where
  "showNum v =
     (case v of
        None \<Rightarrow> ''NaN''
      | Some n \<Rightarrow> if n < 0 then ''-'' @ showNat (nat (- n)) else showNat (nat n))"

text \<open>\<open>s.split(c)\<close> for a one-character separator.\<close>

fun splitOn :: "char \<Rightarrow> string \<Rightarrow> string list" where
  "splitOn c [] = [[]]"
| "splitOn c (x # xs) =
     (if x = c then [] # splitOn c xs
      else (case splitOn c xs of [] \<Rightarrow> [[x]] | p # ps \<Rightarrow> (x # p) # ps))"

text \<open>\<open>parseInt(parts[i])\<close>; a missing part is \<open>undefined\<close>, which parses to NaN.\<close>

definition parseIntAt :: "string list \<Rightarrow> nat \<Rightarrow> int option" where
  "parseIntAt parts i = (case drop i parts of [] \<Rightarrow> None | p # _ \<Rightarrow> parseIntStr p)"

text \<open>
  The calendar of \<open>Date.UTC\<close>, \<open>getUTCMonth\<close> and \<open>getUTCDate\<close>, on day numbers
  counted from 1970-01-01: the first day of a year, the year of a day (searched upwards
  from a year that starts on or before the day), and month and day of the month found
  by walking through the lengths of the months.
\<close>

definition dayFromYear :: "int \<Rightarrow> int" where
  "dayFromYear y = 365 * (y - 1970) + (y - 1969) div 4 - (y - 1901) div 100 + (y - 1601) div 400"

definition inLeapYear :: "int \<Rightarrow> bool" where
  "inLeapYear y = (y mod 4 = 0 \<and> (y mod 100 \<noteq> 0 \<or> y mod 400 = 0))"

lemma div_succ:
  fixes a k :: int
  assumes "1 < k"
  shows "(a + 1) div k = a div k + (if (a + 1) mod k = 0 then 1 else 0)"
proof -
  have m: "0 \<le> a mod k" "a mod k < k" using assms by simp_all
  have one: "(1::int) div k = 0" "(1::int) mod k = 1"
    using assms by (simp_all add: div_pos_pos_trivial mod_pos_pos_trivial)
  have d: "(a + 1) div k = a div k + (a mod k + 1) div k"
    using div_add1_eq [of a 1 k] one by simp
  have r: "(a + 1) mod k = (a mod k + 1) mod k"
    by (simp add: mod_add_left_eq)
  show ?thesis
  proof (cases "a mod k + 1 = k")
    case True
    then show ?thesis using d r assms by simp
  next
    case False
    with m have lt: "a mod k + 1 < k" by linarith
    with m have "(a mod k + 1) div k = 0" "(a mod k + 1) mod k = a mod k + 1"
      by (simp_all add: div_pos_pos_trivial mod_pos_pos_trivial)
    then show ?thesis using d r m by simp
  qed
qed

lemma mod_shift:
  fixes y k :: int
  shows "(y - c * k) mod k = y mod k"
  using mod_mult_self1 [of y "- c" k] by simp

lemma dayFromYear_step:
  "dayFromYear (y + 1) = dayFromYear y + (if inLeapYear y then 366 else 365)"
proof -
  have a: "(y + 1 - 1969) div 4 = (y - 1969) div 4 + (if y mod 4 = 0 then 1 else 0)"
  proof -
    have "(y - 1968) mod 4 = y mod 4" using mod_shift [of y 492 4] by simp
    with div_succ [of 4 "y - 1969"] show ?thesis by (simp add: algebra_simps)
  qed
  have b: "(y + 1 - 1901) div 100 = (y - 1901) div 100 + (if y mod 100 = 0 then 1 else 0)"
  proof -
    have "(y - 1900) mod 100 = y mod 100" using mod_shift [of y 19 100] by simp
    with div_succ [of 100 "y - 1901"] show ?thesis by (simp add: algebra_simps)
  qed
  have c: "(y + 1 - 1601) div 400 = (y - 1601) div 400 + (if y mod 400 = 0 then 1 else 0)"
  proof -
    have "(y - 1600) mod 400 = y mod 400" using mod_shift [of y 4 400] by simp
    with div_succ [of 400 "y - 1601"] show ?thesis by (simp add: algebra_simps)
  qed
  have d: "y mod 4 = 0" if "y mod 100 = 0"
  proof -
    from that have "100 dvd y" by (simp add: dvd_eq_mod_eq_0)
    moreover have "(4::int) dvd 100" by simp
    ultimately have "4 dvd y" by (rule dvd_trans [rotated])
    then show ?thesis by (simp add: dvd_eq_mod_eq_0)
  qed
  have e: "y mod 100 = 0" if "y mod 400 = 0"
  proof -
    from that have "400 dvd y" by (simp add: dvd_eq_mod_eq_0)
    moreover have "(100::int) dvd 400" by simp
    ultimately have "100 dvd y" by (rule dvd_trans [rotated])
    then show ?thesis by (simp add: dvd_eq_mod_eq_0)
  qed
  define p q r where "p = (y - 1969) div 4" and "q = (y - 1901) div 100" and "r = (y - 1601) div 400"
  have eq0: "dayFromYear y = 365 * (y - 1970) + p - q + r"
    by (simp add: dayFromYear_def p_def q_def r_def)
  have "dayFromYear (y + 1) = 365 * (y + 1 - 1970) + (y + 1 - 1969) div 4
      - (y + 1 - 1901) div 100 + (y + 1 - 1601) div 400"
    by (simp only: dayFromYear_def)
  then have eq1: "dayFromYear (y + 1) = 365 * (y - 1970) + 365
      + (p + (if y mod 4 = 0 then 1 else 0)) - (q + (if y mod 100 = 0 then 1 else 0))
      + (r + (if y mod 400 = 0 then 1 else 0))"
    by (simp only: a b c p_def q_def r_def) (simp only: algebra_simps)
  define A B C where "A \<longleftrightarrow> y mod 4 = 0" and "B \<longleftrightarrow> y mod 100 = 0" and "C \<longleftrightarrow> y mod 400 = 0"
  have imp: "B \<longrightarrow> A" "C \<longrightarrow> B" using d e by (simp_all add: A_def B_def C_def)
  have eq1': "dayFromYear (y + 1) = 365 * (y - 1970) + 365
      + (p + (if A then 1 else 0)) - (q + (if B then 1 else 0)) + (r + (if C then 1 else 0))"
    using eq1 by (simp only: A_def B_def C_def)
  have leap: "inLeapYear y \<longleftrightarrow> A \<and> (\<not> B \<or> C)"
    by (simp only: inLeapYear_def A_def B_def C_def)
  show ?thesis
    unfolding eq0 eq1' leap using imp by (cases A; cases B; cases C) simp_all
qed

function yearFrom :: "int \<Rightarrow> int \<Rightarrow> int" where
  "yearFrom y d = (if dayFromYear (y + 1) \<le> d then yearFrom (y + 1) d else y)"
  by pat_completeness auto
termination
proof (relation "measure (\<lambda>(y, d). nat (d - dayFromYear y))")
  fix y d :: int
  assume "dayFromYear (y + 1) \<le> d"
  then show "((y + 1, d), (y, d)) \<in> measure (\<lambda>(y, d). nat (d - dayFromYear y))"
    by (simp add: dayFromYear_step split: if_splits)
qed simp

declare yearFrom.simps [simp del]

definition monthLengths :: "bool \<Rightarrow> int list" where
  "monthLengths leap = [31, if leap then 29 else 28, 31, 30, 31, 30, 31, 31, 30, 31, 30, 31]"

fun monthWalk :: "int list \<Rightarrow> nat \<Rightarrow> int \<Rightarrow> nat \<times> nat" where
  "monthWalk [] m dw = (m, nat (dw + 1))"
| "monthWalk (l # ls) m dw = (if dw < l then (m, nat (dw + 1)) else monthWalk ls (Suc m) (dw - l))"

text \<open>Month (1 to 12) and day of the month of a day number.\<close>

definition utcMonthDate :: "int \<Rightarrow> nat \<times> nat" where
  "utcMonthDate d =
     (let y = yearFrom 1899 d
      in monthWalk (monthLengths (inLeapYear y)) 1 (d - dayFromYear y))"

text \<open>\<open>Date.UTC(1899, 11, 30 + serial)\<close> as a day number: 1899-12-30 is day -25569.\<close>

definition serialDay :: "int \<Rightarrow> int" where
  "serialDay serial = dayFromYear 1899 + 334 + (30 + serial) - 1"

text \<open>\<open>/^\d{1,2}\/\d{1,2}\/\d{2,4}/\<close> and \<open>/^\d{1,2}\/\d{1,2}$/\<close>\<close>

definition reMDY :: "string \<Rightarrow> bool" where
  "reMDY s =
     (List.bind (reDigits12 s) (\<lambda>r. List.bind (reChar CHR ''/'' r) (\<lambda>r.
        List.bind (reDigits12 r) (\<lambda>r. List.bind (reChar CHR ''/'' r) (reDigits 2)))) \<noteq> [])"

definition reMD :: "string \<Rightarrow> bool" where
  "reMD s =
     ([] \<in> set (List.bind (reDigits12 s) (\<lambda>r. List.bind (reChar CHR ''/'' r) reDigits12)))"

text \<open>
  \<open>formatDateLabel\<close> on a string. \<open>hostDate s\<close> stands for \<open>new Date(s)\<close>, whose
  parsing of free text is left to the host: \<open>None\<close> when the date is invalid, else the
  month (\<open>getMonth() + 1\<close>) and the day (\<open>getDate()\<close>) in local time.
\<close>

definition formatDateLabel :: "(string \<Rightarrow> (nat \<times> nat) option) \<Rightarrow> string \<Rightarrow> string" where
  "formatDateLabel hostDate d =
     (if d = [] then []
      else (let s = trim d
            in if reFiveDigits s then
                 (let md = utcMonthDate (serialDay (digitsVal s))
                  in showNat (fst md) @ ''/'' @ showNat (snd md))
               else if reYMD s then
                 (let parts = splitOn CHR ''-'' s
                  in showNum (parseIntAt parts 1) @ ''/'' @ showNum (parseIntAt parts 2))
               else if reMDY s then
                 (let parts = splitOn CHR ''/'' s
                  in showNum (parseIntAt parts 0) @ ''/'' @ showNum (parseIntAt parts 1))
               else if reMD s then s
               else (case hostDate s of
                       Some (m, dd) \<Rightarrow> showNat m @ ''/'' @ showNat dd
                     | None \<Rightarrow> s)))"

subsection \<open>Trimming\<close>













subsection \<open>Decimal numerals\<close>







subsection \<open>What the matchers accept\<close>












subsection \<open>The shape of a matched input\<close>








subsection \<open>Splitting and \<open>parseInt\<close>\<close>

lemma splitOn_nonempty: "splitOn c s \<noteq> []"
  by (induction s) (auto split: list.splits)














subsection \<open>The calendar\<close>





subsection \<open>Idempotence\<close>






subsection \<open>The examples\<close>





lemma trim_ymd: "trim ''2024-3-7'' = ''2024-3-7''" by code_simp




lemma label_trimmed: "formatDateLabel (\<lambda>_. None) '' n/a '' = ''n/a''"
  by code_simp








end
